theory Spec2Isabelle
  imports Main "HOL-Library.AList"
begin

section \<open>Connections and the connection map (pkg/session/connection.go)\<close>

text \<open>
  Byte buffers (\<^verbatim>\<open>[]byte\<close>, \<^verbatim>\<open>*bytes.Buffer\<close>) and Go strings are byte sequences. A Go
  \<^verbatim>\<open>error\<close> value is \<open>None\<close> for \<^verbatim>\<open>nil\<close>.
\<close>

type_synonym bytes = string
type_synonym error = string

text \<open>
  \<^verbatim>\<open>connectionState\<close> has the two named constants \<^verbatim>\<open>pendingState\<close> and
  \<^verbatim>\<open>connectedState\<close>; no other value is ever assigned to a \<^verbatim>\<open>state\<close> field, and
  \<^verbatim>\<open>connStateTable\<close> has exactly these two slots.
\<close>

datatype connectionState = pendingState | connectedState

fun connStateTable :: "connectionState \<Rightarrow> string" where
  "connStateTable pendingState = ''offline''"
| "connStateTable connectedState = ''online''"

text \<open>
  \<^verbatim>\<open>net.Conn\<close>: the remote address it reports and whether \<^verbatim>\<open>Close()\<close> has been called.
\<close>

record Conn =
  remoteAddr :: string
  closed :: bool

text \<open>\<^verbatim>\<open>types.Participant\<close>: only \<^verbatim>\<open>Username\<close> is read in this package.\<close>

record Participant =
  Username :: string

text \<open>
  The \<^verbatim>\<open>connection\<close> struct. \<^verbatim>\<open>ctx\<close> and \<^verbatim>\<open>cancel\<close> are the two ends of one
  cancellation context: \<open>ctxDone\<close> says whether \<^verbatim>\<open>cancel()\<close> has run. The fields
  \<^verbatim>\<open>channel\<close> (never read here) and \<^verbatim>\<open>abortConnectionTimeout\<close> (a signal channel, whose
  receptions are inputs of the watchdog below) carry no data.
\<close>

record connection =
  netConn :: Conn
  ipAddr :: string
  participant :: Participant
  timeout :: int
  ctxDone :: bool
  state :: connectionState

text \<open>
  \<^verbatim>\<open>connectionMap\<close>: a Go map from address to connection. It is kept as an association
  list whose order is the order in which a \<^verbatim>\<open>range\<close> loop visits the entries; every
  statement below holds for every list, hence for every iteration order. The mutex is
  not modelled: each operation runs as one atomic step.
\<close>

record connectionMap =
  connections :: "(string \<times> connection) list"

datatype panic = ConnectionDoesNotExist string | InvalidMessageType

definition newConn :: "Conn \<Rightarrow> int \<Rightarrow> connection" where
  "newConn conn tmo =
     \<lparr> netConn = conn,
       ipAddr = remoteAddr conn,
       participant = \<lparr> Username = [] \<rparr>,
       timeout = tmo,
       ctxDone = False,
       state = pendingState \<rparr>"

definition newConnectionMap :: connectionMap where
  "newConnectionMap = \<lparr> connections = [] \<rparr>"

definition matchState :: "connection \<Rightarrow> connectionState \<Rightarrow> bool" where
  "matchState c st = (state c = st)"

definition doesConnExist :: "connectionMap \<Rightarrow> string \<Rightarrow> bool" where
  "doesConnExist cm connIpAddr =
     (case map_of (connections cm) connIpAddr of None \<Rightarrow> False | Some _ \<Rightarrow> True)"

text \<open>
  \<^verbatim>\<open>addConn\<close> is a plain map assignment: no lookup, no panic. The result type is that of
  the other two mutators so that the three can be compared.
\<close>

definition addConn :: "connectionMap \<Rightarrow> connection \<Rightarrow> panic + connectionMap" where
  "addConn cm conn =
     Inr (cm\<lparr> connections := AList.update (ipAddr conn) conn (connections cm) \<rparr>)"

definition removeConn :: "connectionMap \<Rightarrow> string \<Rightarrow> panic + connectionMap" where
  "removeConn cm connIpAddr =
     (if \<not> doesConnExist cm connIpAddr then Inl (ConnectionDoesNotExist connIpAddr)
      else Inr (cm\<lparr> connections := AList.delete connIpAddr (connections cm) \<rparr>))"

fun hasConnectedParticipant_loop :: "(string \<times> connection) list \<Rightarrow> string \<Rightarrow> bool" where
  "hasConnectedParticipant_loop [] username = False"
| "hasConnectedParticipant_loop ((k, conn) # rest) username =
     (if matchState conn connectedState then
        (if Username (participant conn) = username then True
         else hasConnectedParticipant_loop rest username)
      else hasConnectedParticipant_loop rest username)"

definition hasConnectedParticipant :: "connectionMap \<Rightarrow> string \<Rightarrow> bool" where
  "hasConnectedParticipant cm username =
     hasConnectedParticipant_loop (connections cm) username"

definition empty_cm :: "connectionMap \<Rightarrow> bool" where
  "empty_cm cm = (length (connections cm) = 0)"

text \<open>
  \<^verbatim>\<open>markAsConnected\<close> assigns through the pointer stored in the map: the entry keeps its
  key and its place, only its \<^verbatim>\<open>state\<close> changes.
\<close>

definition markAsConnected :: "connectionMap \<Rightarrow> string \<Rightarrow> panic + connectionMap" where
  "markAsConnected cm connIpAddr =
     (if \<not> doesConnExist cm connIpAddr then Inl (ConnectionDoesNotExist connIpAddr)
      else (case map_of (connections cm) connIpAddr of
              None \<Rightarrow> Inl (ConnectionDoesNotExist connIpAddr)
            | Some conn \<Rightarrow>
                Inr (cm\<lparr> connections :=
                  AList.update connIpAddr (conn\<lparr> state := connectedState \<rparr>) (connections cm) \<rparr>)))"


subsection \<open>Messages and what lies outside the package\<close>

text \<open>
  \<^verbatim>\<open>types.ChatMessage\<close> and \<^verbatim>\<open>types.SysMessage\<close>, with the fields \<^verbatim>\<open>broadcastMessage\<close>
  reads. \<^verbatim>\<open>Contents\<close> is a \<^verbatim>\<open>*bytes.Buffer\<close>: \<^verbatim>\<open>Contents.Len()\<close> is its length and
  \<^verbatim>\<open>Contents.String()\<close> its bytes. The argument of \<^verbatim>\<open>broadcastMessage\<close> is an
  \<^verbatim>\<open>interface{}\<close>; \<open>OtherMessage\<close> stands for every dynamic type that is neither
  pointer.
\<close>

record ChatMessage =
  Sender :: string
  SentTime :: string
  Contents :: bytes

record SysMessage =
  Recipient :: string
  SysSentTime :: string
  SysContents :: bytes

datatype message = Chat ChatMessage | Sys SysMessage | OtherMessage

text \<open>
  Functions of other packages, taken as parameters: \<^verbatim>\<open>util.Fmtln\<close> (format string and
  arguments to the formatted line), \<^verbatim>\<open>strings.EqualFold\<close>, and \<^verbatim>\<open>util.WriteBytes\<close>, which
  returns the byte count and the error of writing a buffer to a \<^verbatim>\<open>net.Conn\<close>. A buffer is
  a value here: \<^verbatim>\<open>WriteBytes\<close> is taken to leave the buffer it is given as it was, so that
  \<^verbatim>\<open>Len()\<close> after the call is the length before it and every connection of a loop is
  passed the same bytes.
\<close>

record extern =
  Fmtln :: "string \<Rightarrow> string list \<Rightarrow> string"
  EqualFold :: "string \<Rightarrow> string \<Rightarrow> bool"
  WriteBytes :: "Conn \<Rightarrow> bytes \<Rightarrow> int \<times> error option"

text \<open>
  What one call of \<^verbatim>\<open>broadcastMessage\<close> does to the outside, in order: each entry is a
  call of \<^verbatim>\<open>util.WriteBytes\<close> (the connection written to and the buffer passed) and
  whether the call was counted in \<^verbatim>\<open>sentCount\<close> (\<open>True\<close>) or reported with
  \<^verbatim>\<open>log.Logger.Error\<close> (\<open>False\<close>).
\<close>

type_synonym write_log = "(connection \<times> bytes \<times> bool) list"

text \<open>
  The loop of the \<^verbatim>\<open>*types.ChatMessage\<close> case, over the entries still to visit, with the
  loop's variables \<^verbatim>\<open>senderWasSkipped\<close> and \<^verbatim>\<open>sentCount\<close>. The byte count is compared with
  \<^verbatim>\<open>msg.Contents.Len()\<close>, as in the source.
\<close>

fun chatLoop ::
  "extern \<Rightarrow> ChatMessage \<Rightarrow> bytes \<Rightarrow> (string \<times> connection) list \<Rightarrow> bool \<Rightarrow> nat \<Rightarrow> write_log
     \<Rightarrow> nat \<times> write_log" where
  "chatLoop ex msg canonChatMsg [] senderWasSkipped sentCount wl = (sentCount, wl)"
| "chatLoop ex msg canonChatMsg ((k, conn) # rest) senderWasSkipped sentCount wl =
     (if matchState conn connectedState then
        (if \<not> senderWasSkipped \<and> EqualFold ex (Username (participant conn)) (Sender msg) then
           chatLoop ex msg canonChatMsg rest True sentCount wl
         else
           (case WriteBytes ex (netConn conn) canonChatMsg of
              (n, err) \<Rightarrow>
                if err \<noteq> None \<or> n \<noteq> int (length (Contents msg)) then
                  chatLoop ex msg canonChatMsg rest senderWasSkipped sentCount
                    (wl @ [(conn, canonChatMsg, False)])
                else
                  chatLoop ex msg canonChatMsg rest senderWasSkipped (sentCount + 1)
                    (wl @ [(conn, canonChatMsg, True)])))
      else chatLoop ex msg canonChatMsg rest senderWasSkipped sentCount wl)"

text \<open>The loop of the \<^verbatim>\<open>*types.SysMessage\<close> case with an empty \<^verbatim>\<open>Recipient\<close>.\<close>

fun sysLoop ::
  "extern \<Rightarrow> SysMessage \<Rightarrow> (string \<times> connection) list \<Rightarrow> nat \<Rightarrow> write_log \<Rightarrow> nat \<times> write_log" where
  "sysLoop ex msg [] sentCount wl = (sentCount, wl)"
| "sysLoop ex msg ((k, conn) # rest) sentCount wl =
     (if matchState conn connectedState then
        (case WriteBytes ex (netConn conn) (SysContents msg) of
           (n, err) \<Rightarrow>
             if err \<noteq> None \<or> n \<noteq> int (length (SysContents msg)) then
               sysLoop ex msg rest sentCount (wl @ [(conn, SysContents msg, False)])
             else
               sysLoop ex msg rest (sentCount + 1) (wl @ [(conn, SysContents msg, True)]))
      else sysLoop ex msg rest sentCount wl)"

definition broadcastMessage ::
  "extern \<Rightarrow> connectionMap \<Rightarrow> message \<Rightarrow> panic + (nat \<times> write_log)" where
  "broadcastMessage ex cm m =
     (case m of
        Chat msg \<Rightarrow>
          Inr (chatLoop ex msg
                 (Fmtln ex ''{%s:%s} %s'' [Sender msg, SentTime msg, Contents msg])
                 (connections cm) False 0 [])
      | Sys msg \<Rightarrow>
          (if Recipient msg \<noteq> [] then
             (case map_of (connections cm) (Recipient msg) of
                Some conn \<Rightarrow>
                  (case WriteBytes ex (netConn conn) (SysContents msg) of
                     (n, err) \<Rightarrow>
                       if err \<noteq> None \<or> n \<noteq> int (length (SysContents msg)) then
                         Inr (0, [(conn, SysContents msg, False)])
                       else Inr (0 + 1, [(conn, SysContents msg, True)]))
              | None \<Rightarrow> Inr (0, []))
           else Inr (sysLoop ex msg (connections cm) 0 []))
      | OtherMessage \<Rightarrow> Inl InvalidMessageType)"


subsection \<open>The idle watchdog\<close>

text \<open>
  \<^verbatim>\<open>disconnectIfIdle\<close> blocks in a \<^verbatim>\<open>select\<close> over three channels. Which case a pass of
  the loop takes is decided outside the function (by the timer, by the reader that
  signals \<^verbatim>\<open>abortConnectionTimeout\<close>, by whoever cancels the context), so the sequence of
  cases taken is the input. \<^verbatim>\<open>timer.Stop()\<close> is answered from outside too:
  \<open>AbortConnectionTimeout stopped\<close> is a reception on \<^verbatim>\<open>abortConnectionTimeout\<close> at which
  \<^verbatim>\<open>timer.Stop()\<close> returns \<open>stopped\<close>. The calls made on the timer are recorded in order.
\<close>

datatype select_case = TimerC | AbortConnectionTimeout bool | CtxDone

datatype timer_call = NewTimer int | Stop | RecvC | Reset int

text \<open>
  The result is the connection, the timer calls made so far, and whether the function
  has returned (\<open>False\<close>: it is blocked in \<^verbatim>\<open>select\<close>, the input being used up).
  Taking the \<^verbatim>\<open>ctx.Done()\<close> case means that the context has been cancelled.
\<close>

fun disconnectIfIdle_loop ::
  "connection \<Rightarrow> timer_call list \<Rightarrow> select_case list \<Rightarrow> connection \<times> timer_call list \<times> bool" where
  "disconnectIfIdle_loop c calls [] = (c, calls, False)"
| "disconnectIfIdle_loop c calls (TimerC # rest) =
     (c\<lparr> netConn := (netConn c)\<lparr> closed := True \<rparr>, ctxDone := True \<rparr>, calls, True)"
| "disconnectIfIdle_loop c calls (AbortConnectionTimeout stopped # rest) =
     disconnectIfIdle_loop c
       (calls @ [Stop] @ (if \<not> stopped then [RecvC] else []) @ [Reset (timeout c)]) rest"
| "disconnectIfIdle_loop c calls (CtxDone # rest) = (c\<lparr> ctxDone := True \<rparr>, calls, True)"

definition disconnectIfIdle ::
  "connection \<Rightarrow> select_case list \<Rightarrow> connection \<times> timer_call list \<times> bool" where
  "disconnectIfIdle c cases = disconnectIfIdle_loop c [NewTimer (timeout c)] cases"

fun isAbort :: "select_case \<Rightarrow> bool" where
  "isAbort (AbortConnectionTimeout stopped) = True"
| "isAbort TimerC = False"
| "isAbort CtxDone = False"

subsection \<open>The watchdog's timer and the clock\<close>

text \<open>
  A \<^verbatim>\<open>time.Timer\<close>, as the package \<^verbatim>\<open>time\<close> documents it: it has a deadline; while it is
  running and the deadline has passed, the runtime sends once on its channel \<^verbatim>\<open>C\<close>, which
  holds one value, and the timer is no longer running. \<open>inC\<close> says that a value waits
  in \<^verbatim>\<open>C\<close>.
\<close>

record timer =
  deadline :: int
  running :: bool
  inC :: bool

definition noTimer :: timer where
  "noTimer = \<lparr> deadline = 0, running = False, inC = False \<rparr>"

definition fire :: "timer \<Rightarrow> timer" where
  "fire tm = tm\<lparr> running := False, inC := True \<rparr>"

text \<open>
  A call on the timer at time \<open>now\<close>. \<^verbatim>\<open>NewTimer(d)\<close> and \<^verbatim>\<open>Reset(d)\<close> set the deadline to
  \<open>now + d\<close> and start the timer; \<^verbatim>\<open>Stop()\<close> stops it and leaves \<^verbatim>\<open>C\<close> as it is; a receive
  from \<^verbatim>\<open>C\<close> takes the value that waits there, and blocks for ever (\<open>None\<close>) when there
  is none and the timer is stopped.
\<close>

fun timerCall :: "int \<Rightarrow> timer \<Rightarrow> timer_call \<Rightarrow> timer option" where
  "timerCall now tm (NewTimer d) = Some \<lparr> deadline = now + d, running = True, inC = False \<rparr>"
| "timerCall now tm Stop = Some (tm\<lparr> running := False \<rparr>)"
| "timerCall now tm RecvC = (if inC tm then Some (tm\<lparr> inC := False \<rparr>) else None)"
| "timerCall now tm (Reset d) = Some (tm\<lparr> deadline := now + d, running := True \<rparr>)"

fun timerCalls :: "int \<Rightarrow> timer \<Rightarrow> timer_call list \<Rightarrow> timer option" where
  "timerCalls now tm [] = Some tm"
| "timerCalls now tm (call # calls) =
     (case timerCall now tm call of None \<Rightarrow> None | Some tm' \<Rightarrow> timerCalls now tm' calls)"

text \<open>
  The timer calls \<^verbatim>\<open>disconnectIfIdle\<close> makes before its first \<^verbatim>\<open>select\<close>, and those it makes
  in the pass of the loop that takes a given case, both read off the function above.
\<close>

definition startCalls :: "connection \<Rightarrow> timer_call list" where
  "startCalls c = fst (snd (disconnectIfIdle c []))"

definition passCalls :: "connection \<Rightarrow> select_case \<Rightarrow> timer_call list" where
  "passCalls c e = fst (snd (disconnectIfIdle_loop c [] [e]))"

text \<open>
  A run with a clock: each \<^verbatim>\<open>select\<close> case with the time at which it is taken.
  \<open>admissible c now tm run\<close> says that the watchdog of \<open>c\<close>, whose timer is \<open>tm\<close> at time
  \<open>now\<close>, can take the cases of \<open>run\<close> at their times:
  \<^item> time does not go back;
  \<^item> the timer's case needs a value in \<^verbatim>\<open>C\<close>: one waits there, or the timer is running
    and its deadline has passed, so that the runtime has sent one;
  \<^item> \<^verbatim>\<open>Stop()\<close> returns true only for a running timer, and false only for a timer that
    is stopped or has expired (the runtime has then sent on \<^verbatim>\<open>C\<close>: \<open>atStop\<close>);
  \<^item> the calls of the pass are then made on the timer, and the watchdog goes on only
    if none of them blocks for ever.
  After the timer's case and after \<^verbatim>\<open>ctx.Done()\<close> the function has returned.
\<close>

type_synonym timed_case = "int \<times> select_case"

definition atStop :: "bool \<Rightarrow> timer \<Rightarrow> timer" where
  "atStop stopped tm = (if stopped then tm else if running tm then fire tm else tm)"

fun admissible :: "connection \<Rightarrow> int \<Rightarrow> timer \<Rightarrow> timed_case list \<Rightarrow> bool" where
  "admissible c now tm [] = True"
| "admissible c now tm ((t, TimerC) # rest) =
     (now \<le> t \<and> (inC tm \<or> (running tm \<and> deadline tm \<le> t)))"
| "admissible c now tm ((t, CtxDone) # rest) = (now \<le> t)"
| "admissible c now tm ((t, AbortConnectionTimeout stopped) # rest) =
     (now \<le> t \<and>
      (if stopped then running tm else (running tm \<longrightarrow> deadline tm \<le> t)) \<and>
      (case timerCalls t (atStop stopped tm) (passCalls c (AbortConnectionTimeout stopped)) of
         None \<Rightarrow> False
       | Some tm' \<Rightarrow> admissible c t tm' rest))"

text \<open>The watchdog is started at time \<open>t0\<close>.\<close>

definition admissibleRun :: "connection \<Rightarrow> int \<Rightarrow> timed_case list \<Rightarrow> bool" where
  "admissibleRun c t0 run =
     (case timerCalls t0 noTimer (startCalls c) of
        None \<Rightarrow> False
      | Some tm \<Rightarrow> admissible c t0 tm run)"

text \<open>The time at which a run takes the timer's case, if it does before it returns.\<close>

fun closeTime :: "timed_case list \<Rightarrow> int option" where
  "closeTime [] = None"
| "closeTime ((t, TimerC) # rest) = Some t"
| "closeTime ((t, AbortConnectionTimeout stopped) # rest) = closeTime rest"
| "closeTime ((t, CtxDone) # rest) = None"

section \<open>Message formatting (pkg/session/message.go)\<close>

subsection \<open>The fragment of \<^verbatim>\<open>time\<close>, \<^verbatim>\<open>unicode/utf8\<close> and \<^verbatim>\<open>fmt\<close> that \<^verbatim>\<open>FmtMessage\<close> uses\<close>

text \<open>
  A \<^verbatim>\<open>time.Time\<close>, as \<^verbatim>\<open>Format\<close> reads it: the seconds of the wall clock in the time's
  own location, counted from the absolute epoch (a midnight), and the nanoseconds
  within the second.
\<close>

record Time =
  absSec :: nat
  nsec :: nat

definition absClock :: "nat \<Rightarrow> nat \<times> nat \<times> nat" where
  "absClock a =
     (let sec = a mod 86400;
          hour = sec div 3600;
          sec = sec - hour * 3600;
          minute = sec div 60;
          sec = sec - minute * 60
      in (hour, minute, sec))"

definition digitChar :: "nat \<Rightarrow> char" where
  "digitChar d = char_of (48 + d)"

fun utoa :: "nat \<Rightarrow> string" where
  "utoa n = (if n < 10 then [digitChar n] else utoa (n div 10) @ [digitChar (n mod 10)])"

declare utoa.simps [simp del]

definition appendInt :: "string \<Rightarrow> nat \<Rightarrow> nat \<Rightarrow> string" where
  "appendInt b x width = b @ replicate (width - length (utoa x)) (CHR ''0'') @ utoa x"

text \<open>
  \<^verbatim>\<open>t.Format(time.TimeOnly)\<close>, the layout being \<^verbatim>\<open>"15:04:05"\<close>: hour, minute and second
  of the clock, each zero-padded to two digits.
\<close>

definition formatTimeOnly :: "Time \<Rightarrow> string" where
  "formatTimeOnly t =
     (case absClock (absSec t) of
        (hour, minute, sec) \<Rightarrow>
          appendInt (appendInt (appendInt [] hour 2 @ '':'') minute 2 @ '':'') sec 2)"

text \<open>
  \<^verbatim>\<open>utf8.RuneCountInString\<close>: a well-formed encoding of 2, 3 or 4 bytes counts once, every
  other byte counts by itself. \<open>utf8First\<close> gives, for a leading byte, the length of the
  encoding and the range accepted for the second byte.
\<close>

definition utf8First :: "nat \<Rightarrow> (nat \<times> nat \<times> nat) option" where
  "utf8First c =
     (if 0xC2 \<le> c \<and> c \<le> 0xDF then Some (2, 0x80, 0xBF)
      else if c = 0xE0 then Some (3, 0xA0, 0xBF)
      else if 0xE1 \<le> c \<and> c \<le> 0xEC then Some (3, 0x80, 0xBF)
      else if c = 0xED then Some (3, 0x80, 0x9F)
      else if 0xEE \<le> c \<and> c \<le> 0xEF then Some (3, 0x80, 0xBF)
      else if c = 0xF0 then Some (4, 0x90, 0xBF)
      else if 0xF1 \<le> c \<and> c \<le> 0xF3 then Some (4, 0x80, 0xBF)
      else if c = 0xF4 then Some (4, 0x80, 0x8F)
      else None)"

definition isCont :: "char \<Rightarrow> bool" where
  "isCont c = (0x80 \<le> (of_char c :: nat) \<and> (of_char c :: nat) \<le> 0xBF)"

definition runeSize :: "string \<Rightarrow> nat" where
  "runeSize s =
     (case s of
        [] \<Rightarrow> 0
      | c # cs \<Rightarrow>
          (if (of_char c :: nat) < 0x80 then 1
           else (case utf8First (of_char c) of
                   None \<Rightarrow> 1
                 | Some (sz, lo, hi) \<Rightarrow>
                     if length s < sz then 1
                     else if (of_char (s ! 1) :: nat) < lo \<or> hi < (of_char (s ! 1) :: nat) then 1
                     else if sz = 2 then 2
                     else if \<not> isCont (s ! 2) then 1
                     else if sz = 3 then 3
                     else if \<not> isCont (s ! 3) then 1
                     else 4)))"

fun RuneCountInString :: "string \<Rightarrow> nat" where
  "RuneCountInString [] = 0"
| "RuneCountInString (c # cs) = 1 + RuneCountInString (drop (runeSize (c # cs) - 1) cs)"

text \<open>
  \<^verbatim>\<open>fmt.Sprintf\<close> for formats made of literal bytes and the verb \<^verbatim>\<open>%s\<close>, with an optional
  decimal width, applied to string operands. Padding is on the left with spaces, up to
  the width counted in runes. \<open>None\<close>: the format, or the number of operands, is outside
  this fragment.
\<close>

definition isDigit :: "char \<Rightarrow> bool" where
  "isDigit c = (48 \<le> (of_char c :: nat) \<and> (of_char c :: nat) \<le> 57)"

definition parsenum :: "string \<Rightarrow> nat" where
  "parsenum ds = foldl (\<lambda>n d. 10 * n + ((of_char d :: nat) - 48)) 0 ds"

definition padString :: "nat option \<Rightarrow> string \<Rightarrow> string" where
  "padString wid s =
     (case wid of
        None \<Rightarrow> s
      | Some w \<Rightarrow> replicate (w - RuneCountInString s) (CHR '' '') @ s)"

lemma dropWhile_Cons_shorter: "v # r = dropWhile P xs \<Longrightarrow> length r < Suc (length xs)"
proof -
  assume "v # r = dropWhile P xs"
  then have "Suc (length r) = length (dropWhile P xs)"
    by (metis length_Cons)
  then show ?thesis
    using length_dropWhile_le [of P xs] by simp
qed

function Sprintf :: "string \<Rightarrow> string list \<Rightarrow> string option" where
  "Sprintf [] args = (if args = [] then Some [] else None)"
| "Sprintf (c # fmt) args =
     (if c \<noteq> CHR ''%'' then map_option ((#) c) (Sprintf fmt args)
      else
        (let ds = takeWhile isDigit fmt;
             wid = (if ds = [] then None else Some (parsenum ds))
         in (case (dropWhile isDigit fmt, args) of
               (v # fmt', a # args') \<Rightarrow>
                 if v = CHR ''s'' then map_option ((@) (padString wid a)) (Sprintf fmt' args')
                 else None
             | _ \<Rightarrow> None)))"
  by pat_completeness auto
termination
  by (relation "measure (\<lambda>(fmt, args). length fmt)") (auto dest: dropWhile_Cons_shorter)

subsection \<open>\<^verbatim>\<open>Message\<close>, \<^verbatim>\<open>MakeMessage\<close>, \<^verbatim>\<open>FmtMessage\<close>\<close>

record Message =
  msgSender :: string
  msgContents :: bytes
  SendTime :: string
  Receiver :: string
  SendToAllParticipants :: bool
  sender :: string
  ownedBySession :: bool
  recipient :: string
  hasRecipient :: bool
  data :: bytes
  time :: Time

text \<open>
  The exported fields \<^verbatim>\<open>Sender\<close> and \<^verbatim>\<open>Contents\<close> of \<^verbatim>\<open>Message\<close> are \<open>msgSender\<close> and
  \<open>msgContents\<close> here (the names are taken by \<^verbatim>\<open>types.ChatMessage\<close>). \<^verbatim>\<open>MakeMessage\<close>
  reads the clock; \<open>now\<close> is what \<^verbatim>\<open>time.Now()\<close> returns.
\<close>

definition MakeMessage :: "Time \<Rightarrow> bytes \<Rightarrow> string \<Rightarrow> string list \<Rightarrow> Message" where
  "MakeMessage now d s rest =
     (let m = \<lparr> msgSender = [], msgContents = [], SendTime = [], Receiver = [],
                 SendToAllParticipants = False, sender = s, ownedBySession = False,
                 recipient = [], hasRecipient = False, data = d, time = now \<rparr>
      in if length rest \<noteq> 0 then m\<lparr> hasRecipient := True, recipient := hd rest \<rparr> else m)"

definition FmtMessage :: "Message \<Rightarrow> bytes option" where
  "FmtMessage m =
     (if ownedBySession m then Sprintf ''%s: %s'' [formatTimeOnly (time m), data m]
      else Sprintf ''%s: [%18s]: %s'' [formatTimeOnly (time m), sender m, data m])"


section \<open>Notions used to state the properties\<close>

text \<open>The connections of the entries in state \<^verbatim>\<open>connectedState\<close>, in iteration order.\<close>

definition connectedOf :: "(string \<times> connection) list \<Rightarrow> connection list" where
  "connectedOf xs = filter (\<lambda>c. state c = connectedState) (map snd xs)"

text \<open>
  \<open>fullWrite ex buf len c\<close>: writing \<open>buf\<close> to \<open>c\<close> returns no error and the byte count
  \<open>len\<close>, which is when \<^verbatim>\<open>broadcastMessage\<close> counts the write.
\<close>

definition fullWrite :: "extern \<Rightarrow> bytes \<Rightarrow> nat \<Rightarrow> connection \<Rightarrow> bool" where
  "fullWrite ex buf len c = (WriteBytes ex (netConn c) buf = (int len, None))"

text \<open>A list without its first element that satisfies \<open>P\<close>.\<close>

fun skipFirst :: "('a \<Rightarrow> bool) \<Rightarrow> 'a list \<Rightarrow> 'a list" where
  "skipFirst P [] = []"
| "skipFirst P (x # xs) = (if P x then xs else x # skipFirst P xs)"

text \<open>A character is a decimal digit.\<close>

definition digit :: "char \<Rightarrow> bool" where
  "digit c = (c \<in> set ''0123456789'')"

subsection \<open>Concrete data for the examples\<close>

text \<open>
  An instance of the outside functions: \<open>sprintfLn\<close> formats as \<open>Sprintf\<close> does and ends
  the line, \<open>asciiEqualFold\<close> compares after lowering the ASCII capitals (what
  \<^verbatim>\<open>strings.EqualFold\<close> does on ASCII letters), and every write is complete: it returns
  the length of the buffer and no error.
\<close>

definition sprintfLn :: "string \<Rightarrow> string list \<Rightarrow> string" where
  "sprintfLn f args = (case Sprintf f args of Some s \<Rightarrow> s @ [CHR 0x0A] | None \<Rightarrow> [])"

definition toLowerASCII :: "char \<Rightarrow> char" where
  "toLowerASCII c =
     (if 65 \<le> (of_char c :: nat) \<and> (of_char c :: nat) \<le> 90 then char_of ((of_char c :: nat) + 32)
      else c)"

definition asciiEqualFold :: "string \<Rightarrow> string \<Rightarrow> bool" where
  "asciiEqualFold s t = (map toLowerASCII s = map toLowerASCII t)"

definition completeWrites :: extern where
  "completeWrites =
     \<lparr> Fmtln = sprintfLn, EqualFold = asciiEqualFold,
       WriteBytes = (\<lambda>c buf. (int (length buf), None)) \<rparr>"

text \<open>A client at an address, logged in under a name, with a timeout of 100 ms.\<close>

definition client :: "string \<Rightarrow> string \<Rightarrow> connectionState \<Rightarrow> connection" where
  "client addr user st =
     (newConn \<lparr> remoteAddr = addr, closed = False \<rparr> 100000000)
       \<lparr> participant := \<lparr> Username = user \<rparr>, state := st \<rparr>"

definition alice :: connection where
  "alice = client ''10.0.0.1:5001'' ''alice'' connectedState"

definition bob :: connection where
  "bob = client ''10.0.0.2:5002'' ''bob'' connectedState"

definition carol :: connection where
  "carol = client ''10.0.0.3:5003'' ''carol'' connectedState"

definition alice2 :: connection where
  "alice2 = client ''10.0.0.4:5004'' ''Alice'' connectedState"

definition bobPending :: connection where
  "bobPending = client ''10.0.0.2:5002'' ''bob'' pendingState"

definition room :: connectionMap where
  "room = \<lparr> connections = [(ipAddr alice, alice), (ipAddr bob, bob), (ipAddr carol, carol)] \<rparr>"

definition hi :: ChatMessage where
  "hi = \<lparr> Sender = ''alice'', SentTime = ''12:00:00'', Contents = ''hi'' \<rparr>"

definition noon :: Time where
  "noon = \<lparr> absSec = 43200, nsec = 0 \<rparr>"

text \<open>Two sessions under one name, a pending connection with an empty address.\<close>

definition lobby :: connectionMap where
  "lobby = \<lparr> connections = [(ipAddr alice, alice), (ipAddr alice2, alice2), (ipAddr bob, bob)] \<rparr>"

definition ghost :: connection where
  "ghost = client [] ''ghost'' pendingState"

definition leaveNotice :: "string \<Rightarrow> SysMessage" where
  "leaveNotice r = \<lparr> Recipient = r, SysSentTime = ''12:00:00'', SysContents = ''leave-notice'' \<rparr>"

section \<open>Properties of the connection map\<close>

lemma doesConnExist_iff: "doesConnExist cm k \<longleftrightarrow> map_of (connections cm) k \<noteq> None"
  by (simp add: doesConnExist_def split: option.split)

lemma doesConnExist_delete: "\<not> doesConnExist (cm\<lparr> connections := AList.delete k (connections cm) \<rparr>) k"
  by (simp add: doesConnExist_iff delete_conv')

lemma connectedOf_Nil: "connectedOf [] = []"
  by (simp add: connectedOf_def)

lemma connectedOf_Cons:
  "connectedOf ((k, c) # xs) =
     (if state c = connectedState then c # connectedOf xs else connectedOf xs)"
  by (simp add: connectedOf_def)

lemma hasConnectedParticipant_loop_iff:
  "hasConnectedParticipant_loop xs username \<longleftrightarrow>
     (\<exists>c \<in> set (connectedOf xs). Username (participant c) = username)"
proof (induction xs)
  case Nil
  then show ?case by (simp add: connectedOf_Nil)
next
  case (Cons x xs)
  obtain k conn where x: "x = (k, conn)" by (cases x)
  show ?case
    using Cons.IH by (auto simp: x connectedOf_Cons matchState_def)
qed

text \<open>
  C3, as amended. \<^verbatim>\<open>addConn\<close> never fails: it stores the connection under its address,
  replacing an entry already there, and leaves every other key as it was.
  \<^verbatim>\<open>removeConn\<close> and \<^verbatim>\<open>markAsConnected\<close> panic exactly when the address is absent;
  when it is present the first deletes the entry and the second sets its state to
  \<^verbatim>\<open>connectedState\<close>.
\<close>

theorem mutators_preconditions:
  "(\<exists>cm'. addConn cm conn = Inr cm' \<and>
       map_of (connections cm') = (map_of (connections cm))(ipAddr conn \<mapsto> conn)) \<and>
   (\<not> doesConnExist cm k \<longrightarrow>
       removeConn cm k = Inl (ConnectionDoesNotExist k) \<and>
       markAsConnected cm k = Inl (ConnectionDoesNotExist k)) \<and>
   (doesConnExist cm k \<longrightarrow>
       (\<exists>cm'. removeConn cm k = Inr cm' \<and>
          map_of (connections cm') = (map_of (connections cm))(k := None)) \<and>
       (\<exists>cm' c. markAsConnected cm k = Inr cm' \<and> map_of (connections cm) k = Some c \<and>
          map_of (connections cm') = (map_of (connections cm))(k \<mapsto> c\<lparr> state := connectedState \<rparr>)))"
proof (intro conjI impI)
  show "\<exists>cm'. addConn cm conn = Inr cm' \<and>
       map_of (connections cm') = (map_of (connections cm))(ipAddr conn \<mapsto> conn)"
    by (simp add: addConn_def update_conv')
next
  assume "\<not> doesConnExist cm k"
  then show "removeConn cm k = Inl (ConnectionDoesNotExist k)"
    by (simp add: removeConn_def)
next
  assume "\<not> doesConnExist cm k"
  then show "markAsConnected cm k = Inl (ConnectionDoesNotExist k)"
    by (simp add: markAsConnected_def)
next
  assume "doesConnExist cm k"
  then show "\<exists>cm'. removeConn cm k = Inr cm' \<and>
          map_of (connections cm') = (map_of (connections cm))(k := None)"
    by (simp add: removeConn_def delete_conv')
next
  assume "doesConnExist cm k"
  then obtain c where c: "map_of (connections cm) k = Some c"
    by (auto simp: doesConnExist_iff)
  then show "\<exists>cm' c. markAsConnected cm k = Inr cm' \<and> map_of (connections cm) k = Some c \<and>
          map_of (connections cm') = (map_of (connections cm))(k \<mapsto> c\<lparr> state := connectedState \<rparr>)"
    using \<open>doesConnExist cm k\<close> by (simp add: markAsConnected_def update_conv')
qed

lemma room_lookup_bob: "doesConnExist room (ipAddr bob)"
  by (simp add: doesConnExist_def room_def alice_def bob_def carol_def client_def newConn_def)

lemma room_lookup_nobody: "\<not> doesConnExist room ''10.9.9.9:9999''"
  by (simp add: doesConnExist_def room_def alice_def bob_def carol_def client_def newConn_def)

theorem mutators_preconditions_witness:
  "doesConnExist room (ipAddr bob) \<and>
   \<not> doesConnExist room ''10.9.9.9:9999'' \<and>
   removeConn room ''10.9.9.9:9999'' = Inl (ConnectionDoesNotExist ''10.9.9.9:9999'') \<and>
   markAsConnected room ''10.9.9.9:9999'' = Inl (ConnectionDoesNotExist ''10.9.9.9:9999'') \<and>
   (\<exists>cm'. removeConn room (ipAddr bob) = Inr cm' \<and> map_of (connections cm') (ipAddr bob) = None) \<and>
   (\<exists>cm'. addConn room bobPending = Inr cm' \<and> map_of (connections cm') (ipAddr bob) = Some bobPending)"
proof -
  have same: "ipAddr bobPending = ipAddr bob"
    by (simp add: bob_def bobPending_def client_def newConn_def)
  show ?thesis
    using mutators_preconditions [of room bobPending "''10.9.9.9:9999''"]
      mutators_preconditions [of room bobPending "ipAddr bob"]
      room_lookup_bob room_lookup_nobody
    by (auto simp: same)
qed

theorem addConn_present_counterexample:
  "doesConnExist room (ipAddr bobPending) \<and>
   addConn room bobPending =
     Inr \<lparr> connections = [(ipAddr alice, alice), (ipAddr bob, bobPending), (ipAddr carol, carol)] \<rparr>"
  by (simp add: doesConnExist_def addConn_def room_def alice_def bob_def bobPending_def carol_def
      client_def newConn_def)

text \<open>
  C8. \<^verbatim>\<open>hasConnectedParticipant\<close> is true exactly when some entry is in state
  \<^verbatim>\<open>connectedState\<close> and its participant's \<^verbatim>\<open>Username\<close> is the given string, compared
  byte for byte; so it is false as soon as no entry is both. The function only reads the
  map: it returns the boolean and nothing else.
\<close>

theorem hasConnectedParticipant_iff:
  "hasConnectedParticipant cm username \<longleftrightarrow>
     (\<exists>(k, c) \<in> set (connections cm).
        state c = connectedState \<and> Username (participant c) = username)"
proof -
  have "(\<exists>c \<in> set (connectedOf (connections cm)). Username (participant c) = username) \<longleftrightarrow>
        (\<exists>p \<in> set (connections cm).
           state (snd p) = connectedState \<and> Username (participant (snd p)) = username)"
    by (auto simp: connectedOf_def)
  then show ?thesis
    by (simp add: hasConnectedParticipant_def hasConnectedParticipant_loop_iff case_prod_unfold)
qed

theorem hasConnectedParticipant_iff_witness:
  "hasConnectedParticipant room ''bob'' \<and>
   \<not> hasConnectedParticipant room ''Bob'' \<and>
   \<not> hasConnectedParticipant \<lparr> connections = [(ipAddr alice, alice), (ipAddr bob, bobPending)] \<rparr> ''bob'' \<and>
   \<not> hasConnectedParticipant \<lparr> connections = [(ipAddr alice, alice), (ipAddr carol, carol)] \<rparr> ''bob''"
  using hasConnectedParticipant_iff [of room "''bob''"]
    hasConnectedParticipant_iff [of room "''Bob''"]
    hasConnectedParticipant_iff [of "\<lparr> connections = [(ipAddr alice, alice), (ipAddr bob, bobPending)] \<rparr>" "''bob''"]
    hasConnectedParticipant_iff [of "\<lparr> connections = [(ipAddr alice, alice), (ipAddr carol, carol)] \<rparr>" "''bob''"]
  by (simp add: room_def alice_def bob_def bobPending_def carol_def client_def newConn_def)

section \<open>Properties of \<^verbatim>\<open>broadcastMessage\<close>\<close>

text \<open>The loops add to the count and append to the log they are started with.\<close>

lemma chatLoop_acc:
  "chatLoop ex msg cn xs sk c wl =
     (c + fst (chatLoop ex msg cn xs sk 0 []), wl @ snd (chatLoop ex msg cn xs sk 0 []))"
proof (induction xs arbitrary: sk c wl)
  case Nil
  then show ?case by simp
next
  case (Cons x xs)
  obtain k conn where x: "x = (k, conn)" by (cases x)
  obtain n err where w: "WriteBytes ex (netConn conn) cn = (n, err)" by (cases "WriteBytes ex (netConn conn) cn")
  show ?case
  proof (cases "matchState conn connectedState")
    case False
    then show ?thesis using Cons.IH[of sk c wl] by (simp add: x)
  next
    case True
    note conn = True
    show ?thesis
    proof (cases "\<not> sk \<and> EqualFold ex (Username (participant conn)) (Sender msg)")
      case True
      then show ?thesis using conn Cons.IH[of True c wl] by (simp add: x)
    next
      case False
      note noskip = False
      show ?thesis
      proof (cases "err \<noteq> None \<or> n \<noteq> int (length (Contents msg))")
        case True
        have "chatLoop ex msg cn (x # xs) sk c wl = chatLoop ex msg cn xs sk c (wl @ [(conn, cn, False)])"
          using conn noskip True by (auto simp: x w)
        moreover have "chatLoop ex msg cn (x # xs) sk 0 [] = chatLoop ex msg cn xs sk 0 [(conn, cn, False)]"
          using conn noskip True by (auto simp: x w)
        ultimately show ?thesis
          using Cons.IH[of sk c "wl @ [(conn, cn, False)]"] Cons.IH[of sk 0 "[(conn, cn, False)]"]
          by simp
      next
        case False
        have "chatLoop ex msg cn (x # xs) sk c wl = chatLoop ex msg cn xs sk (c + 1) (wl @ [(conn, cn, True)])"
          using conn noskip False by (auto simp: x w)
        moreover have "chatLoop ex msg cn (x # xs) sk 0 [] = chatLoop ex msg cn xs sk (0 + 1) [(conn, cn, True)]"
          using conn noskip False by (auto simp: x w)
        ultimately show ?thesis
          using Cons.IH[of sk "c + 1" "wl @ [(conn, cn, True)]"] Cons.IH[of sk "0 + 1" "[(conn, cn, True)]"]
          by simp
      qed
    qed
  qed
qed

lemma sysLoop_acc:
  "sysLoop ex msg xs c wl =
     (c + fst (sysLoop ex msg xs 0 []), wl @ snd (sysLoop ex msg xs 0 []))"
proof (induction xs arbitrary: c wl)
  case Nil
  then show ?case by simp
next
  case (Cons x xs)
  obtain k conn where x: "x = (k, conn)" by (cases x)
  obtain n err where w: "WriteBytes ex (netConn conn) (SysContents msg) = (n, err)"
    by (cases "WriteBytes ex (netConn conn) (SysContents msg)")
  show ?case
    using Cons.IH[of c wl]
      Cons.IH[of c "wl @ [(conn, SysContents msg, False)]"] Cons.IH[of 0 "[(conn, SysContents msg, False)]"]
      Cons.IH[of "c + 1" "wl @ [(conn, SysContents msg, True)]"] Cons.IH[of "0 + 1" "[(conn, SysContents msg, True)]"]
    by (simp add: x w)
qed



text \<open>
  What each loop computes: the connections written to, in order, each with the buffer
  and whether the write was counted, and the number of counted writes.
\<close>

lemma chatLoop_char:
  "chatLoop ex msg cn xs sk 0 [] =
     (let P = (\<lambda>c. EqualFold ex (Username (participant c)) (Sender msg));
          ts = (if sk then connectedOf xs else skipFirst P (connectedOf xs))
      in (length (filter (fullWrite ex cn (length (Contents msg))) ts),
          map (\<lambda>c. (c, cn, fullWrite ex cn (length (Contents msg)) c)) ts))"
proof (induction xs arbitrary: sk)
  case Nil
  then show ?case by (simp add: connectedOf_Nil)
next
  case (Cons x xs)
  obtain k conn where x: "x = (k, conn)" by (cases x)
  obtain n err where w: "WriteBytes ex (netConn conn) cn = (n, err)"
    by (cases "WriteBytes ex (netConn conn) cn")
  show ?case
  proof (cases "matchState conn connectedState")
    case False
    then show ?thesis using Cons.IH[of sk]
      by (simp add: x connectedOf_Cons matchState_def)
  next
    case True
    note conn = True
    show ?thesis
    proof (cases "\<not> sk \<and> EqualFold ex (Username (participant conn)) (Sender msg)")
      case True
      then show ?thesis using conn Cons.IH[of True]
        by (simp add: x connectedOf_Cons matchState_def)
    next
      case False
      note noskip = False
      have step: "chatLoop ex msg cn (x # xs) sk 0 [] =
          chatLoop ex msg cn xs sk (if fullWrite ex cn (length (Contents msg)) conn then 0 + 1 else 0)
            ([] @ [(conn, cn, fullWrite ex cn (length (Contents msg)) conn)])"
        using conn noskip by (auto simp: x w fullWrite_def)
      show ?thesis
        unfolding step
        apply (subst chatLoop_acc)
        using conn noskip Cons.IH[of sk]
        by (auto simp: x connectedOf_Cons matchState_def Let_def)
    qed
  qed
qed

lemma sysLoop_char:
  "sysLoop ex msg xs 0 [] =
     (length (filter (fullWrite ex (SysContents msg) (length (SysContents msg))) (connectedOf xs)),
      map (\<lambda>c. (c, SysContents msg, fullWrite ex (SysContents msg) (length (SysContents msg)) c))
        (connectedOf xs))"
proof (induction xs)
  case Nil
  then show ?case by (simp add: connectedOf_Nil)
next
  case (Cons x xs)
  obtain k conn where x: "x = (k, conn)" by (cases x)
  obtain n err where w: "WriteBytes ex (netConn conn) (SysContents msg) = (n, err)"
    by (cases "WriteBytes ex (netConn conn) (SysContents msg)")
  show ?case
  proof (cases "matchState conn connectedState")
    case False
    then show ?thesis using Cons.IH
      by (simp add: x connectedOf_Cons matchState_def)
  next
    case True
    have step: "sysLoop ex msg (x # xs) 0 [] =
        sysLoop ex msg xs
          (if fullWrite ex (SysContents msg) (length (SysContents msg)) conn then 0 + 1 else 0)
          ([] @ [(conn, SysContents msg, fullWrite ex (SysContents msg) (length (SysContents msg)) conn)])"
      using True by (auto simp: x w fullWrite_def)
    show ?thesis
      unfolding step
      apply (subst sysLoop_acc)
      using True Cons.IH
      by (auto simp: x connectedOf_Cons matchState_def)
  qed
qed


lemma length_skipFirst_ge: "length xs - 1 \<le> length (skipFirst P xs)"
  by (induction xs) auto

lemma length_skipFirst_eq: "\<exists>x \<in> set xs. P x \<Longrightarrow> length (skipFirst P xs) = length xs - 1"
proof (induction xs)
  case Nil
  then show ?case by simp
next
  case (Cons x xs)
  show ?case
  proof (cases "P x")
    case True
    then show ?thesis by simp
  next
    case False
    then have ex: "\<exists>x \<in> set xs. P x" using Cons.prems by auto
    then have "xs \<noteq> []" by auto
    then show ?thesis using Cons.IH [OF ex] False by (cases xs) auto
  qed
qed

lemma skipFirst_none: "\<forall>x \<in> set xs. \<not> P x \<Longrightarrow> skipFirst P xs = xs"
  by (induction xs) auto

lemma set_skipFirst: "set (skipFirst P xs) \<subseteq> set xs"
  by (induction xs) auto

lemma broadcast_chat:
  "broadcastMessage ex cm (Chat msg) =
     (let line = Fmtln ex ''{%s:%s} %s'' [Sender msg, SentTime msg, Contents msg];
          ts = skipFirst (\<lambda>c. EqualFold ex (Username (participant c)) (Sender msg))
                 (connectedOf (connections cm))
      in Inr (length (filter (fullWrite ex line (length (Contents msg))) ts),
              map (\<lambda>c. (c, line, fullWrite ex line (length (Contents msg)) c)) ts))"
  by (simp add: broadcastMessage_def chatLoop_char Let_def)

lemma broadcast_sys_all:
  "Recipient msg = [] \<Longrightarrow>
   broadcastMessage ex cm (Sys msg) =
     Inr (length (filter (fullWrite ex (SysContents msg) (length (SysContents msg)))
            (connectedOf (connections cm))),
          map (\<lambda>c. (c, SysContents msg, fullWrite ex (SysContents msg) (length (SysContents msg)) c))
            (connectedOf (connections cm)))"
  by (simp add: broadcastMessage_def sysLoop_char)

lemma broadcast_sys_directed:
  "Recipient msg \<noteq> [] \<Longrightarrow>
   broadcastMessage ex cm (Sys msg) =
     (case map_of (connections cm) (Recipient msg) of
        None \<Rightarrow> Inr (0, [])
      | Some conn \<Rightarrow>
          Inr (if fullWrite ex (SysContents msg) (length (SysContents msg)) conn then 1 else 0,
               [(conn, SysContents msg, fullWrite ex (SysContents msg) (length (SysContents msg)) conn)]))"
  by (auto simp: broadcastMessage_def fullWrite_def split: option.split prod.split)

lemmas example_defs =
  room_def lobby_def alice_def alice2_def bob_def bobPending_def carol_def ghost_def
  client_def newConn_def hi_def leaveNotice_def

lemmas example_extern =
  completeWrites_def sprintfLn_def asciiEqualFold_def toLowerASCII_def isDigit_def
  padString_def fullWrite_def char_of_def bit_iff_odd

text \<open>
  C6. In a chat broadcast the connections written to are the connected ones, in
  iteration order, without the first whose participant name equals the sender under
  \<^verbatim>\<open>strings.EqualFold\<close>: later entries with such a name are written to. So at most one
  connected entry is left out, and when the sender is among the \<open>N\<close> connected entries
  exactly \<open>N - 1\<close> writes are made and the returned count is at most \<open>N - 1\<close>.
\<close>

theorem chat_broadcast_single_skip:
  "broadcastMessage ex cm (Chat msg) = Inr (n, wl) \<Longrightarrow>
     map fst wl =
       skipFirst (\<lambda>c. EqualFold ex (Username (participant c)) (Sender msg))
         (connectedOf (connections cm)) \<and>
     length (connectedOf (connections cm)) - 1 \<le> length wl \<and>
     n \<le> length wl \<and>
     ((\<exists>c \<in> set (connectedOf (connections cm)).
          EqualFold ex (Username (participant c)) (Sender msg)) \<longrightarrow>
        length wl = length (connectedOf (connections cm)) - 1 \<and>
        n \<le> length (connectedOf (connections cm)) - 1)"
proof -
  assume run: "broadcastMessage ex cm (Chat msg) = Inr (n, wl)"
  define P where "P = (\<lambda>c::connection. EqualFold ex (Username (participant c)) (Sender msg))"
  define ts where "ts = skipFirst P (connectedOf (connections cm))"
  have targets: "map fst wl = ts"
    using run by (auto simp: broadcast_chat Let_def ts_def P_def comp_def)
  have len: "length wl = length ts"
    using targets by (metis length_map)
  have count: "n \<le> length wl"
    using run by (auto simp: broadcast_chat Let_def)
  have atmost: "length (connectedOf (connections cm)) - 1 \<le> length wl"
    unfolding len ts_def by (rule length_skipFirst_ge)
  have exact: "length wl = length (connectedOf (connections cm)) - 1"
    if "\<exists>c \<in> set (connectedOf (connections cm)). P c"
    unfolding len ts_def using that by (rule length_skipFirst_eq)
  have bound: "n \<le> length (connectedOf (connections cm)) - 1"
    if "\<exists>c \<in> set (connectedOf (connections cm)). P c"
    using exact [OF that] count by simp
  show ?thesis
    using targets count atmost exact bound unfolding ts_def P_def by blast
qed

theorem chat_broadcast_single_skip_witness:
  "broadcastMessage completeWrites lobby (Chat hi) =
     Inr (0, [(alice2, ''{alice:12:00:00} hi'' @ [CHR 0x0A], False),
              (bob, ''{alice:12:00:00} hi'' @ [CHR 0x0A], False)]) \<and>
   connectedOf (connections lobby) = [alice, alice2, bob] \<and>
   EqualFold completeWrites (Username (participant alice)) (Sender hi) \<and>
   EqualFold completeWrites (Username (participant alice2)) (Sender hi) \<and>
   skipFirst (\<lambda>c. EqualFold completeWrites (Username (participant c)) (Sender hi))
     (connectedOf (connections lobby)) = [alice2, bob] \<and>
   length [(alice2, ''{alice:12:00:00} hi'' @ [CHR 0x0A], False),
           (bob, ''{alice:12:00:00} hi'' @ [CHR 0x0A], False)] =
     length (connectedOf (connections lobby)) - 1"
proof -
  have run: "broadcastMessage completeWrites lobby (Chat hi) =
     Inr (0, [(alice2, ''{alice:12:00:00} hi'' @ [CHR 0x0A], False),
              (bob, ''{alice:12:00:00} hi'' @ [CHR 0x0A], False)])"
    by (simp add: broadcastMessage_def matchState_def example_defs example_extern)
  have conns: "connectedOf (connections lobby) = [alice, alice2, bob]"
    by (simp add: connectedOf_def example_defs)
  have m1: "EqualFold completeWrites (Username (participant alice)) (Sender hi)"
    by (simp add: example_defs example_extern)
  have m2: "EqualFold completeWrites (Username (participant alice2)) (Sender hi)"
    by (simp add: example_defs example_extern)
  show ?thesis
    using chat_broadcast_single_skip [OF run] run conns m1 m2 by simp
qed

text \<open>
  C7. A system message with a non-empty \<^verbatim>\<open>Recipient\<close> that is not a key of the map makes
  no write, returns the count 0 and does not panic. When the key is present, the one
  write made is that of the payload to the connection stored under it, and the count is
  1 exactly when that write returns no error and the payload's length. The function
  reads the map and returns only the count: the map is as it was.
\<close>

theorem directed_sys_message:
  "Recipient msg \<noteq> [] \<Longrightarrow>
     (\<not> doesConnExist cm (Recipient msg) \<longrightarrow>
        broadcastMessage ex cm (Sys msg) = Inr (0, [])) \<and>
     (\<forall>conn. map_of (connections cm) (Recipient msg) = Some conn \<longrightarrow>
        broadcastMessage ex cm (Sys msg) =
          Inr (if fullWrite ex (SysContents msg) (length (SysContents msg)) conn then 1 else 0,
               [(conn, SysContents msg,
                 fullWrite ex (SysContents msg) (length (SysContents msg)) conn)]))"
  by (simp add: broadcast_sys_directed doesConnExist_iff)

theorem directed_sys_message_witness:
  "Recipient (leaveNotice ''10.9.9.9:9999'') \<noteq> [] \<and>
   \<not> doesConnExist room ''10.9.9.9:9999'' \<and>
   broadcastMessage completeWrites room (Sys (leaveNotice ''10.9.9.9:9999'')) = Inr (0, []) \<and>
   map_of (connections room) (ipAddr bob) = Some bob \<and>
   broadcastMessage completeWrites room (Sys (leaveNotice (ipAddr bob))) =
     Inr (1, [(bob, ''leave-notice'', True)])"
proof -
  have r1: "Recipient (leaveNotice ''10.9.9.9:9999'') \<noteq> []"
    by (simp add: leaveNotice_def)
  have r2: "Recipient (leaveNotice (ipAddr bob)) \<noteq> []"
    by (simp add: example_defs)
  have absent: "\<not> doesConnExist room ''10.9.9.9:9999''"
    by (simp add: doesConnExist_def example_defs)
  have present: "map_of (connections room) (Recipient (leaveNotice (ipAddr bob))) = Some bob"
    by (simp add: example_defs)
  have full: "fullWrite completeWrites (SysContents (leaveNotice (ipAddr bob)))
      (length (SysContents (leaveNotice (ipAddr bob)))) bob"
    by (simp add: fullWrite_def completeWrites_def)
  show ?thesis
    using directed_sys_message [OF r1, of room completeWrites]
      directed_sys_message [OF r2, of room completeWrites]
      r1 absent present full
    by (simp add: leaveNotice_def)
qed

text \<open>
  C10. A system message is broadcast exactly when its \<^verbatim>\<open>Recipient\<close> is the empty
  string: the payload is then written to every connected entry, in iteration order, and
  to nothing else, whether or not the map has an entry under the empty key. With a
  non-empty \<^verbatim>\<open>Recipient\<close> at most one write is made, to the entry under that key.
\<close>

theorem sys_recipient_selects_mode:
  "(Recipient msg = [] \<longrightarrow>
      broadcastMessage ex cm (Sys msg) =
        Inr (length (filter (fullWrite ex (SysContents msg) (length (SysContents msg)))
               (connectedOf (connections cm))),
             map (\<lambda>c. (c, SysContents msg,
                        fullWrite ex (SysContents msg) (length (SysContents msg)) c))
               (connectedOf (connections cm)))) \<and>
   (Recipient msg \<noteq> [] \<longrightarrow>
      (\<exists>n wl. broadcastMessage ex cm (Sys msg) = Inr (n, wl) \<and>
         map fst wl =
           (case map_of (connections cm) (Recipient msg) of None \<Rightarrow> [] | Some conn \<Rightarrow> [conn])))"
  by (simp add: broadcast_sys_all broadcast_sys_directed split: option.split)

theorem sys_recipient_selects_mode_witness:
  "Recipient (leaveNotice []) = [] \<and>
   map_of [(ipAddr ghost, ghost), (ipAddr bob, bob), (ipAddr carol, carol)] [] = Some ghost \<and>
   broadcastMessage completeWrites
     \<lparr> connections = [(ipAddr ghost, ghost), (ipAddr bob, bob), (ipAddr carol, carol)] \<rparr>
     (Sys (leaveNotice [])) =
     Inr (2, [(bob, ''leave-notice'', True), (carol, ''leave-notice'', True)]) \<and>
   Recipient (leaveNotice (ipAddr carol)) \<noteq> [] \<and>
   (\<exists>n wl. broadcastMessage completeWrites
       \<lparr> connections = [(ipAddr ghost, ghost), (ipAddr bob, bob), (ipAddr carol, carol)] \<rparr>
       (Sys (leaveNotice (ipAddr carol))) = Inr (n, wl) \<and> map fst wl = [carol])"
proof -
  have r1: "Recipient (leaveNotice []) = []"
    by (simp add: leaveNotice_def)
  have r2: "Recipient (leaveNotice (ipAddr carol)) \<noteq> []"
    by (simp add: example_defs)
  have g: "map_of [(ipAddr ghost, ghost), (ipAddr bob, bob), (ipAddr carol, carol)] [] = Some ghost"
    by (simp add: example_defs)
  have conns: "connectedOf [(ipAddr ghost, ghost), (ipAddr bob, bob), (ipAddr carol, carol)] = [bob, carol]"
    by (simp add: connectedOf_def example_defs)
  have look: "map_of [(ipAddr ghost, ghost), (ipAddr bob, bob), (ipAddr carol, carol)]
      (Recipient (leaveNotice (ipAddr carol))) = Some carol"
    by (simp add: example_defs)
  show ?thesis
    using sys_recipient_selects_mode [of "leaveNotice []" completeWrites
        "\<lparr> connections = [(ipAddr ghost, ghost), (ipAddr bob, bob), (ipAddr carol, carol)] \<rparr>"]
      sys_recipient_selects_mode [of "leaveNotice (ipAddr carol)" completeWrites
        "\<lparr> connections = [(ipAddr ghost, ghost), (ipAddr bob, bob), (ipAddr carol, carol)] \<rparr>"]
      r1 r2 g conns look
    by (simp add: fullWrite_def completeWrites_def leaveNotice_def)
qed

lemma connectedOf_state: "c \<in> set (connectedOf xs) \<Longrightarrow> state c = connectedState \<and> c \<in> snd ` set xs"
  by (auto simp: connectedOf_def)

text \<open>
  C2, as amended. A chat message and a system message with an empty \<^verbatim>\<open>Recipient\<close> are
  written only to entries of the map in state \<^verbatim>\<open>connectedState\<close>. A system message with
  a non-empty \<^verbatim>\<open>Recipient\<close> is written to the entry stored under that key whenever there
  is one, whatever its state.
\<close>

theorem writes_to_connected_or_recipient:
  "broadcastMessage ex cm m = Inr (n, wl) \<Longrightarrow>
     ((\<forall>msg. m = Sys msg \<longrightarrow> Recipient msg = []) \<longrightarrow>
        (\<forall>e \<in> set wl. state (fst e) = connectedState \<and> fst e \<in> snd ` set (connections cm))) \<and>
     (\<forall>msg conn. m = Sys msg \<and> Recipient msg \<noteq> [] \<and>
        map_of (connections cm) (Recipient msg) = Some conn \<longrightarrow> map fst wl = [conn])"
proof (cases m)
  case (Chat msg)
  assume run: "broadcastMessage ex cm m = Inr (n, wl)"
  have "fst ` set wl \<subseteq> set (connectedOf (connections cm))"
    using run set_skipFirst [of "\<lambda>c. EqualFold ex (Username (participant c)) (Sender msg)"
        "connectedOf (connections cm)"]
    unfolding Chat by (auto simp: broadcast_chat Let_def)
  then show ?thesis
    using Chat connectedOf_state [of _ "connections cm"] by fastforce
next
  case (Sys msg)
  assume run: "broadcastMessage ex cm m = Inr (n, wl)"
  show ?thesis
  proof (cases "Recipient msg = []")
    case True
    then have "fst ` set wl \<subseteq> set (connectedOf (connections cm))"
      using run unfolding Sys by (auto simp: broadcast_sys_all)
    then show ?thesis
      using Sys True connectedOf_state [of _ "connections cm"] by fastforce
  next
    case False
    then show ?thesis
      using run unfolding Sys by (auto simp: broadcast_sys_directed)
  qed
next
  case OtherMessage
  assume "broadcastMessage ex cm m = Inr (n, wl)"
  then show ?thesis
    using OtherMessage by (simp add: broadcastMessage_def)
qed

theorem writes_to_connected_or_recipient_witness:
  "broadcastMessage completeWrites
     \<lparr> connections = [(ipAddr alice, alice), (ipAddr bobPending, bobPending), (ipAddr carol, carol)] \<rparr>
     (Sys (leaveNotice [])) =
     Inr (2, [(alice, ''leave-notice'', True), (carol, ''leave-notice'', True)]) \<and>
   state alice = connectedState \<and> state carol = connectedState \<and>
   state bobPending = pendingState \<and>
   broadcastMessage completeWrites
     \<lparr> connections = [(ipAddr alice, alice), (ipAddr bobPending, bobPending), (ipAddr carol, carol)] \<rparr>
     (Sys (leaveNotice (ipAddr bobPending))) =
     Inr (1, [(bobPending, ''leave-notice'', True)]) \<and>
   map fst [(bobPending, ''leave-notice'', True)] = [bobPending]"
proof -
  let ?cm = "\<lparr> connections =
    [(ipAddr alice, alice), (ipAddr bobPending, bobPending), (ipAddr carol, carol)] \<rparr>"
  have run1: "broadcastMessage completeWrites ?cm (Sys (leaveNotice [])) =
      Inr (2, [(alice, ''leave-notice'', True), (carol, ''leave-notice'', True)])"
    by (simp add: broadcastMessage_def matchState_def example_defs completeWrites_def)
  have run2: "broadcastMessage completeWrites ?cm (Sys (leaveNotice (ipAddr bobPending))) =
      Inr (1, [(bobPending, ''leave-notice'', True)])"
    by (simp add: broadcastMessage_def matchState_def example_defs completeWrites_def)
  have all: "\<forall>msg. Sys (leaveNotice []) = Sys msg \<longrightarrow> Recipient msg = []"
    by (simp add: leaveNotice_def)
  have look: "Recipient (leaveNotice (ipAddr bobPending)) \<noteq> [] \<and>
      map_of (connections ?cm) (Recipient (leaveNotice (ipAddr bobPending))) = Some bobPending"
    by (simp add: example_defs)
  have st: "state bobPending = pendingState"
    by (simp add: example_defs)
  show ?thesis
    using writes_to_connected_or_recipient [OF run1] writes_to_connected_or_recipient [OF run2]
      run1 run2 all look st
    by auto
qed

theorem directed_sys_pending_counterexample:
  "state bobPending = pendingState \<and>
   broadcastMessage completeWrites \<lparr> connections = [(ipAddr bobPending, bobPending)] \<rparr>
     (Sys (leaveNotice (ipAddr bobPending))) =
     Inr (1, [(bobPending, ''leave-notice'', True)])"
  by (simp add: broadcastMessage_def example_defs completeWrites_def)

text \<open>
  C1, the code at the claim's example. What a chat broadcast compares the byte count
  with is the length of the payload, not of the line it wrote. When every write is
  complete (no error, the length of the buffer written) and the line is not as long as
  the payload, every write is reported as failed and the count returned is 0: with
  alice, bob and carol connected and alice sending \<open>hi\<close>, bob and carol are written the
  line and the count is 0, not 2.
\<close>

theorem chat_complete_writes_not_counted:
  "(\<forall>c buf. WriteBytes ex c buf = (int (length buf), None)) \<Longrightarrow>
   length (Fmtln ex ''{%s:%s} %s'' [Sender msg, SentTime msg, Contents msg])
     \<noteq> length (Contents msg) \<Longrightarrow>
   broadcastMessage ex cm (Chat msg) =
     Inr (0, map (\<lambda>c. (c, Fmtln ex ''{%s:%s} %s'' [Sender msg, SentTime msg, Contents msg], False))
               (skipFirst (\<lambda>c. EqualFold ex (Username (participant c)) (Sender msg))
                  (connectedOf (connections cm))))"
  by (simp add: broadcast_chat Let_def fullWrite_def)

theorem chat_complete_writes_not_counted_witness:
  "length (Fmtln completeWrites ''{%s:%s} %s'' [Sender hi, SentTime hi, Contents hi]) = 20 \<and>
   length (Contents hi) = 2 \<and>
   connectedOf (connections room) = [alice, bob, carol] \<and>
   broadcastMessage completeWrites room (Chat hi) =
     Inr (0, [(bob, ''{alice:12:00:00} hi'' @ [CHR 0x0A], False),
              (carol, ''{alice:12:00:00} hi'' @ [CHR 0x0A], False)])"
proof -
  have w: "\<forall>c buf. WriteBytes completeWrites c buf = (int (length buf), None)"
    by (simp add: completeWrites_def)
  have line: "Fmtln completeWrites ''{%s:%s} %s'' [Sender hi, SentTime hi, Contents hi] =
      ''{alice:12:00:00} hi'' @ [CHR 0x0A]"
    by (simp add: example_defs example_extern)
  have len: "length (Fmtln completeWrites ''{%s:%s} %s'' [Sender hi, SentTime hi, Contents hi])
      \<noteq> length (Contents hi)"
    unfolding line by (simp add: hi_def)
  have conns: "connectedOf (connections room) = [alice, bob, carol]"
    by (simp add: connectedOf_def example_defs)
  have skip: "skipFirst (\<lambda>c. EqualFold completeWrites (Username (participant c)) (Sender hi))
      [alice, bob, carol] = [bob, carol]"
    by (simp add: example_defs example_extern)
  show ?thesis
    using chat_complete_writes_not_counted [OF w len, of room] line conns skip
    by (simp add: hi_def)
qed

section \<open>Properties of the idle watchdog\<close>

text \<open>
  Receptions on \<^verbatim>\<open>abortConnectionTimeout\<close> change neither the connection nor whether the
  function has returned; they only add timer calls.
\<close>

lemma disconnectIfIdle_loop_aborts:
  "\<forall>e \<in> set pre. isAbort e \<Longrightarrow>
   \<exists>calls'. disconnectIfIdle_loop c calls (pre @ rest) = disconnectIfIdle_loop c calls' rest"
proof (induction pre arbitrary: calls)
  case Nil
  then show ?case by auto
next
  case (Cons e pre)
  then obtain stopped where e: "e = AbortConnectionTimeout stopped"
    by (cases e) auto
  show ?case
    using Cons.IH [of "calls @ [Stop] @ (if \<not> stopped then [RecvC] else []) @ [Reset (timeout c)]"]
      Cons.prems
    by (simp add: e)
qed

text \<open>
  C4, as amended. When the \<^verbatim>\<open>select\<close> takes the timer's case, after any number of resets,
  the watchdog closes the socket, cancels the context and returns. The connection's
  \<^verbatim>\<open>state\<close> is not assigned: it keeps its value, which is one of the two values the type
  has, \<^verbatim>\<open>pendingState\<close> and \<^verbatim>\<open>connectedState\<close>.
\<close>

theorem timer_fired_closes_socket:
  "\<forall>e \<in> set pre. isAbort e \<Longrightarrow>
   disconnectIfIdle c (pre @ TimerC # rest) = (c', calls, returned) \<Longrightarrow>
     c' = c\<lparr> netConn := (netConn c)\<lparr> closed := True \<rparr>, ctxDone := True \<rparr> \<and>
     closed (netConn c') \<and> ctxDone c' \<and> returned \<and>
     state c' = state c \<and> (state c' = pendingState \<or> state c' = connectedState)"
proof -
  assume pre: "\<forall>e \<in> set pre. isAbort e"
    and run: "disconnectIfIdle c (pre @ TimerC # rest) = (c', calls, returned)"
  obtain calls' where
    "disconnectIfIdle_loop c [NewTimer (timeout c)] (pre @ TimerC # rest) =
       disconnectIfIdle_loop c calls' (TimerC # rest)"
    using disconnectIfIdle_loop_aborts [OF pre] by blast
  then have c': "c' = c\<lparr> netConn := (netConn c)\<lparr> closed := True \<rparr>, ctxDone := True \<rparr>"
    and r: "returned"
    using run by (simp_all add: disconnectIfIdle_def)
  have two: "state c' = pendingState \<or> state c' = connectedState"
    by (cases "state c'") simp_all
  show ?thesis
    using c' r two by simp
qed

theorem timer_fired_closes_socket_witness:
  "isAbort (AbortConnectionTimeout False) \<and>
   disconnectIfIdle alice [AbortConnectionTimeout False, TimerC] =
     (alice\<lparr> netConn := (netConn alice)\<lparr> closed := True \<rparr>, ctxDone := True \<rparr>,
      [NewTimer (timeout alice), Stop, RecvC, Reset (timeout alice)], True) \<and>
   state (alice\<lparr> netConn := (netConn alice)\<lparr> closed := True \<rparr>, ctxDone := True \<rparr>) = connectedState"
proof -
  have pre: "\<forall>e \<in> set [AbortConnectionTimeout False]. isAbort e"
    by simp
  have run: "disconnectIfIdle alice ([AbortConnectionTimeout False] @ TimerC # []) =
     (alice\<lparr> netConn := (netConn alice)\<lparr> closed := True \<rparr>, ctxDone := True \<rparr>,
      [NewTimer (timeout alice), Stop, RecvC, Reset (timeout alice)], True)"
    by (simp add: disconnectIfIdle_def)
  have st: "state alice = connectedState"
    by (simp add: alice_def client_def)
  show ?thesis
    using timer_fired_closes_socket [OF pre run] run st by simp
qed

theorem timer_fired_state_counterexample:
  "state alice = connectedState \<and>
   disconnectIfIdle alice [TimerC] =
     (alice\<lparr> netConn := (netConn alice)\<lparr> closed := True \<rparr>, ctxDone := True \<rparr>,
      [NewTimer (timeout alice)], True) \<and>
   state (fst (disconnectIfIdle alice [TimerC])) = connectedState"
  by (simp add: disconnectIfIdle_def alice_def client_def)

section \<open>Properties of \<^verbatim>\<open>FmtMessage\<close>\<close>

lemma digitChar_digit: "d < 10 \<Longrightarrow> digit (digitChar d)"
proof -
  assume "d < 10"
  then consider "d = 0" | "d = 1" | "d = 2" | "d = 3" | "d = 4"
    | "d = 5" | "d = 6" | "d = 7" | "d = 8" | "d = 9"
    by atomize_elim arith
  then show ?thesis
    by cases (simp_all add: digit_def digitChar_def char_of_def bit_iff_odd)
qed

lemma digitChar_0: "digitChar 0 = CHR ''0''"
  by (simp add: digitChar_def char_of_def bit_iff_odd)

lemma appendInt_two_digits:
  "x < 100 \<Longrightarrow> appendInt b x 2 = b @ [digitChar (x div 10), digitChar (x mod 10)]"
proof (cases "x < 10")
  case True
  then have "utoa x = [digitChar x]"
    by (simp add: utoa.simps [of x])
  then show ?thesis
    using True by (simp add: appendInt_def digitChar_0)
next
  case False
  assume "x < 100"
  then have small: "x div 10 < 10"
    by simp
  have "utoa x = utoa (x div 10) @ [digitChar (x mod 10)]"
    using False by (simp add: utoa.simps [of x])
  also have "utoa (x div 10) = [digitChar (x div 10)]"
    using small by (simp add: utoa.simps [of "x div 10"])
  finally show ?thesis
    by (simp add: appendInt_def)
qed

lemma absClock_bounds:
  "absClock a = (hour, minute, sec) \<Longrightarrow> hour < 24 \<and> minute < 60 \<and> sec < 60"
proof -
  assume h: "absClock a = (hour, minute, sec)"
  define r where "r = a mod 86400"
  have d: "r < 86400"
    by (simp add: r_def)
  have hour: "hour = r div 3600"
    and minute: "minute = (r - r div 3600 * 3600) div 60"
    and sec: "sec = r - r div 3600 * 3600 - (r - r div 3600 * 3600) div 60 * 60"
    using h by (auto simp: absClock_def Let_def r_def)
  have h24: "hour < 24"
    unfolding hour using d by simp
  have "r - r div 3600 * 3600 < 3600"
    by (simp add: minus_div_mult_eq_mod)
  then have m60: "minute < 60"
    unfolding minute by simp
  have "sec = (r - r div 3600 * 3600) mod 60"
    unfolding sec by (simp add: minus_div_mult_eq_mod)
  then have "sec < 60"
    by simp
  then show ?thesis
    using h24 m60 by simp
qed

lemma formatTimeOnly_digits:
  "absClock (absSec t) = (hour, minute, sec) \<Longrightarrow>
   formatTimeOnly t =
      [digitChar (hour div 10), digitChar (hour mod 10), CHR '':'',
       digitChar (minute div 10), digitChar (minute mod 10), CHR '':'',
       digitChar (sec div 10), digitChar (sec mod 10)]"
proof -
  assume c: "absClock (absSec t) = (hour, minute, sec)"
  from absClock_bounds [OF c] have b: "hour < 100" "minute < 100" "sec < 100"
    by simp_all
  show ?thesis
    by (simp add: formatTimeOnly_def c appendInt_two_digits b)
qed

lemma formatTimeOnly_shape:
  "\<exists>h1 h2 m1 m2 s1 s2.
     formatTimeOnly t = [h1, h2, CHR '':'', m1, m2, CHR '':'', s1, s2] \<and>
     digit h1 \<and> digit h2 \<and> digit m1 \<and> digit m2 \<and> digit s1 \<and> digit s2"
proof -
  obtain hour minute sec where c: "absClock (absSec t) = (hour, minute, sec)"
    by (cases "absClock (absSec t)")
  from absClock_bounds [OF c] have b: "hour div 10 < 10" "minute div 10 < 10" "sec div 10 < 10"
    by auto
  have m: "hour mod 10 < 10" "minute mod 10 < 10" "sec mod 10 < 10"
    by simp_all
  show ?thesis
    unfolding formatTimeOnly_digits [OF c]
    using b m by (simp add: digitChar_digit)
qed

lemma Sprintf_owned: "Sprintf ''%s: %s'' [a, b] = Some (a @ '': '' @ b)"
  by (simp add: isDigit_def padString_def)

lemma parsenum_18: "parsenum ''18'' = 18"
  by (simp add: parsenum_def)

lemma Sprintf_relayed:
  "Sprintf ''%s: [%18s]: %s'' [a, s, b] =
     Some (a @ '': ['' @ replicate (18 - RuneCountInString s) (CHR '' '') @ s @ '']: '' @ b)"
  by (simp add: isDigit_def padString_def parsenum_18)

lemma digitChar_nth: "d < 10 \<Longrightarrow> digitChar d = ''0123456789'' ! d"
proof -
  assume "d < 10"
  then consider "d = 0" | "d = 1" | "d = 2" | "d = 3" | "d = 4"
    | "d = 5" | "d = 6" | "d = 7" | "d = 8" | "d = 9"
    by atomize_elim arith
  then show ?thesis
    by cases (simp_all add: digitChar_def char_of_def bit_iff_odd)
qed

lemma absClock_arith:
  "absClock a = (a mod 86400 div 3600, a mod 3600 div 60, a mod 60)"
proof -
  define r where "r = a mod 86400"
  have r3600: "r mod 3600 = a mod 3600"
    unfolding r_def by (simp add: mod_mod_cancel)
  have r60: "r mod 3600 mod 60 = a mod 60"
    unfolding r3600 by (simp add: mod_mod_cancel)
  have m: "r - r div 3600 * 3600 = r mod 3600"
    by (simp add: minus_div_mult_eq_mod)
  have s: "r mod 3600 - r mod 3600 div 60 * 60 = r mod 3600 mod 60"
    by (simp add: minus_div_mult_eq_mod)
  have "absClock a = (r div 3600, (r - r div 3600 * 3600) div 60,
      r - r div 3600 * 3600 - (r - r div 3600 * 3600) div 60 * 60)"
    by (simp add: absClock_def Let_def r_def)
  then show ?thesis
    unfolding m s r60 unfolding r3600 by (simp add: r_def)
qed

lemma formatTimeOnly_clock:
  "formatTimeOnly t =
     [''0123456789'' ! (absSec t mod 86400 div 3600 div 10),
      ''0123456789'' ! (absSec t mod 86400 div 3600 mod 10), CHR '':'',
      ''0123456789'' ! (absSec t mod 3600 div 60 div 10),
      ''0123456789'' ! (absSec t mod 3600 div 60 mod 10), CHR '':'',
      ''0123456789'' ! (absSec t mod 60 div 10),
      ''0123456789'' ! (absSec t mod 60 mod 10)]"
proof -
  have c: "absClock (absSec t) =
      (absSec t mod 86400 div 3600, absSec t mod 3600 div 60, absSec t mod 60)"
    by (rule absClock_arith)
  have h: "absSec t mod 86400 div 3600 div 10 < 10"
    using absClock_bounds [OF c] by auto
  have mi: "absSec t mod 3600 div 60 div 10 < 10"
    using absClock_bounds [OF c] by auto
  have s: "absSec t mod 60 div 10 < 10"
    using absClock_bounds [OF c] by auto
  have lo: "absSec t mod 86400 div 3600 mod 10 < 10" "absSec t mod 3600 div 60 mod 10 < 10"
    "absSec t mod 60 mod 10 < 10"
    by simp_all
  show ?thesis
    unfolding formatTimeOnly_digits [OF c]
    by (simp only: digitChar_nth [OF h] digitChar_nth [OF mi] digitChar_nth [OF s]
        digitChar_nth [OF lo(1)] digitChar_nth [OF lo(2)] digitChar_nth [OF lo(3)])
qed

lemma RuneCountInString_ascii:
  "\<forall>c \<in> set s. (of_char c :: nat) < 128 \<Longrightarrow> RuneCountInString s = length s"
proof (induction s)
  case Nil
  then show ?case by simp
next
  case (Cons c s)
  then have "runeSize (c # s) = 1"
    by (simp add: runeSize_def)
  then show ?case
    using Cons by simp
qed

lemma runeSize_bounds:
  "1 \<le> runeSize (c # cs) \<and> runeSize (c # cs) \<le> 4 \<and> runeSize (c # cs) \<le> length (c # cs)"
  by (auto simp: runeSize_def utf8First_def Suc_le_eq split: option.split if_splits)

lemma RuneCountInString_bounds:
  "RuneCountInString s \<le> length s \<and> length s \<le> 4 * RuneCountInString s"
proof (induction s rule: length_induct)
  case (1 s)
  show ?case
  proof (cases s)
    case Nil
    then show ?thesis by simp
  next
    case (Cons c cs)
    let ?k = "runeSize (c # cs)"
    have b: "1 \<le> ?k" "?k \<le> 4" "?k \<le> length (c # cs)"
      using runeSize_bounds [of c cs] by simp_all
    have shorter: "length (drop (?k - 1) cs) < length s"
      by (simp add: Cons)
    have len: "length (drop (?k - 1) cs) = length s - ?k"
      using b by (simp add: Cons)
    have ih: "RuneCountInString (drop (?k - 1) cs) \<le> length (drop (?k - 1) cs) \<and>
        length (drop (?k - 1) cs) \<le> 4 * RuneCountInString (drop (?k - 1) cs)"
      using 1 shorter by blast
    have rc: "RuneCountInString s = 1 + RuneCountInString (drop (?k - 1) cs)"
      by (simp add: Cons)
    have ls: "length s = Suc (length cs)"
      by (simp add: Cons)
    show ?thesis
      using ih b unfolding rc len ls by simp arith
  qed
qed

text \<open>
  C9. \<^verbatim>\<open>FmtMessage\<close> always produces a line, of one of two forms chosen by
  \<^verbatim>\<open>ownedBySession\<close>: the time, \<open>: \<close> and the payload; or the time, \<open>: [\<close>, the sender
  padded on the left with spaces to 18 runes (unchanged when it has 18 or more),
  \<open>]: \<close> and the payload. The time is eight bytes: the hour of the day, the minute of
  the hour and the second of the minute of the message's wall clock, two decimal digits
  each, separated by colons; it does not depend on the nanoseconds. The runes of a
  sender are at most its bytes and at least a quarter of them, and are its bytes when
  the sender is ASCII.
\<close>

theorem FmtMessage_forms:
  "FmtMessage m =
     Some (if ownedBySession m then formatTimeOnly (time m) @ '': '' @ data m
           else formatTimeOnly (time m) @ '': ['' @
                replicate (18 - RuneCountInString (sender m)) (CHR '' '') @ sender m @
                '']: '' @ data m) \<and>
   formatTimeOnly (time m) =
     [''0123456789'' ! (absSec (time m) mod 86400 div 3600 div 10),
      ''0123456789'' ! (absSec (time m) mod 86400 div 3600 mod 10), CHR '':'',
      ''0123456789'' ! (absSec (time m) mod 3600 div 60 div 10),
      ''0123456789'' ! (absSec (time m) mod 3600 div 60 mod 10), CHR '':'',
      ''0123456789'' ! (absSec (time m) mod 60 div 10),
      ''0123456789'' ! (absSec (time m) mod 60 mod 10)] \<and>
   (\<exists>h1 h2 m1 m2 s1 s2.
      formatTimeOnly (time m) = [h1, h2, CHR '':'', m1, m2, CHR '':'', s1, s2] \<and>
      digit h1 \<and> digit h2 \<and> digit m1 \<and> digit m2 \<and> digit s1 \<and> digit s2) \<and>
   formatTimeOnly ((time m)\<lparr> nsec := ns \<rparr>) = formatTimeOnly (time m) \<and>
   RuneCountInString (sender m) \<le> length (sender m) \<and>
   length (sender m) \<le> 4 * RuneCountInString (sender m) \<and>
   ((\<forall>c \<in> set (sender m). (of_char c :: nat) < 128) \<longrightarrow>
      RuneCountInString (sender m) = length (sender m))"
proof (intro conjI impI)
  show "FmtMessage m =
     Some (if ownedBySession m then formatTimeOnly (time m) @ '': '' @ data m
           else formatTimeOnly (time m) @ '': ['' @
                replicate (18 - RuneCountInString (sender m)) (CHR '' '') @ sender m @
                '']: '' @ data m)"
  proof (cases "ownedBySession m")
    case True
    then show ?thesis
      by (simp only: FmtMessage_def Sprintf_owned if_True)
  next
    case False
    then show ?thesis
      by (simp only: FmtMessage_def Sprintf_relayed if_False)
  qed
next
  show "formatTimeOnly (time m) =
     [''0123456789'' ! (absSec (time m) mod 86400 div 3600 div 10),
      ''0123456789'' ! (absSec (time m) mod 86400 div 3600 mod 10), CHR '':'',
      ''0123456789'' ! (absSec (time m) mod 3600 div 60 div 10),
      ''0123456789'' ! (absSec (time m) mod 3600 div 60 mod 10), CHR '':'',
      ''0123456789'' ! (absSec (time m) mod 60 div 10),
      ''0123456789'' ! (absSec (time m) mod 60 mod 10)]"
    by (rule formatTimeOnly_clock)
next
  show "\<exists>h1 h2 m1 m2 s1 s2.
      formatTimeOnly (time m) = [h1, h2, CHR '':'', m1, m2, CHR '':'', s1, s2] \<and>
      digit h1 \<and> digit h2 \<and> digit m1 \<and> digit m2 \<and> digit s1 \<and> digit s2"
    by (rule formatTimeOnly_shape)
next
  show "formatTimeOnly ((time m)\<lparr> nsec := ns \<rparr>) = formatTimeOnly (time m)"
    by (simp add: formatTimeOnly_def)
next
  show "RuneCountInString (sender m) \<le> length (sender m)"
    using RuneCountInString_bounds [of "sender m"] by simp
next
  show "length (sender m) \<le> 4 * RuneCountInString (sender m)"
    using RuneCountInString_bounds [of "sender m"] by simp
next
  assume "\<forall>c \<in> set (sender m). (of_char c :: nat) < 128"
  then show "RuneCountInString (sender m) = length (sender m)"
    by (rule RuneCountInString_ascii)
qed

text \<open>
  At 13:05:09 and 7 ns, \<open>bob\<close> sending \<open>hello\<close>: the field is 15 spaces and \<open>bob\<close>. A
  sender of two ASCII bytes and one rune of two bytes has three runes and four bytes:
  its field is 15 spaces and the four bytes.
\<close>

theorem FmtMessage_forms_witness:
  "FmtMessage (MakeMessage \<lparr> absSec = 47109, nsec = 7 \<rparr> ''hello'' ''bob'' []) =
     Some ''13:05:09: [               bob]: hello'' \<and>
   FmtMessage ((MakeMessage \<lparr> absSec = 47109 + 86400 * 20000, nsec = 7 \<rparr> ''hello'' ''bob'' [])
       \<lparr> ownedBySession := True \<rparr>) =
     Some ''13:05:09: hello'' \<and>
   RuneCountInString ''bob'' = 3 \<and>
   FmtMessage (MakeMessage noon ''hi'' [CHR ''z'', CHR ''o'', CHR 0xC3, CHR 0xA9] []) =
     Some (''12:00:00: [               '' @ [CHR ''z'', CHR ''o'', CHR 0xC3, CHR 0xA9] @ '']: hi'')"
proof -
  let ?m1 = "MakeMessage \<lparr> absSec = 47109, nsec = 7 \<rparr> ''hello'' ''bob'' []"
  let ?m2 = "(MakeMessage \<lparr> absSec = 47109 + 86400 * 20000, nsec = 7 \<rparr> ''hello'' ''bob'' [])
       \<lparr> ownedBySession := True \<rparr>"
  let ?m3 = "MakeMessage noon ''hi'' [CHR ''z'', CHR ''o'', CHR 0xC3, CHR 0xA9] []"
  have ascii: "\<forall>c \<in> set (sender ?m1). (of_char c :: nat) < 128"
    by (simp add: MakeMessage_def)
  have pad: "replicate 15 (CHR '' '') = ''               ''"
    by (simp add: numeral_eq_Suc)
  have zoe: "RuneCountInString [CHR ''z'', CHR ''o'', CHR 0xC3, CHR 0xA9] = 3"
    by (simp add: runeSize_def utf8First_def)
  have t1: "formatTimeOnly (time ?m1) = ''13:05:09''"
    using FmtMessage_forms [of ?m1 0] by (simp add: MakeMessage_def)
  have t2: "formatTimeOnly (time ?m2) = ''13:05:09''"
    using FmtMessage_forms [of ?m2 0] by (simp add: MakeMessage_def)
  have t3: "formatTimeOnly (time ?m3) = ''12:00:00''"
    using FmtMessage_forms [of ?m3 0] by (simp add: MakeMessage_def noon_def)
  have r1: "RuneCountInString (sender ?m1) = 3"
    using FmtMessage_forms [of ?m1 0] ascii by (simp add: MakeMessage_def)
  have f1: "FmtMessage ?m1 = Some (formatTimeOnly (time ?m1) @ '': ['' @
      replicate (18 - RuneCountInString (sender ?m1)) (CHR '' '') @ sender ?m1 @ '']: '' @ data ?m1)"
    using FmtMessage_forms [of ?m1 0] by (simp add: MakeMessage_def del: RuneCountInString.simps)
  have f2: "FmtMessage ?m2 = Some (formatTimeOnly (time ?m2) @ '': '' @ data ?m2)"
    using FmtMessage_forms [of ?m2 0] by (simp add: MakeMessage_def del: RuneCountInString.simps)
  have f3: "FmtMessage ?m3 = Some (formatTimeOnly (time ?m3) @ '': ['' @
      replicate (18 - RuneCountInString (sender ?m3)) (CHR '' '') @ sender ?m3 @ '']: '' @ data ?m3)"
    using FmtMessage_forms [of ?m3 0] by (simp add: MakeMessage_def del: RuneCountInString.simps)
  have c1: "FmtMessage ?m1 = Some ''13:05:09: [               bob]: hello''"
    unfolding f1 t1 r1 by (simp add: MakeMessage_def pad)
  have c2: "FmtMessage ?m2 = Some ''13:05:09: hello''"
    unfolding f2 t2 by (simp add: MakeMessage_def)
  have s3: "sender ?m3 = [CHR ''z'', CHR ''o'', CHR 0xC3, CHR 0xA9]"
    by (simp add: MakeMessage_def)
  have c3: "FmtMessage ?m3 =
      Some (''12:00:00: [               '' @ [CHR ''z'', CHR ''o'', CHR 0xC3, CHR 0xA9] @ '']: hi'')"
    unfolding f3 t3 s3 zoe by (simp add: MakeMessage_def pad)
  have r: "RuneCountInString ''bob'' = 3"
    using r1 by (simp add: MakeMessage_def del: RuneCountInString.simps)
  show ?thesis
    using c1 c2 c3 r by (simp del: RuneCountInString.simps)
qed

section \<open>Resets of the watchdog\<close>

lemma startCalls_eq: "startCalls c = [NewTimer (timeout c)]"
  by (simp add: startCalls_def disconnectIfIdle_def)

lemma passCalls_abort:
  "passCalls c (AbortConnectionTimeout stopped) =
     Stop # (if stopped then [] else [RecvC]) @ [Reset (timeout c)]"
  by (simp add: passCalls_def)

lemma disconnectIfIdle_loop_resets:
  "\<forall>e \<in> set pre. isAbort e \<Longrightarrow>
   disconnectIfIdle_loop c calls pre = (c, calls @ concat (map (passCalls c) pre), False)"
proof (induction pre arbitrary: calls)
  case Nil
  then show ?case by simp
next
  case (Cons e pre)
  then obtain stopped where e: "e = AbortConnectionTimeout stopped"
    by (cases e) auto
  have rest: "\<forall>e \<in> set pre. isAbort e"
    using Cons.prems by simp
  show ?case
    unfolding e
    by (simp add: Cons.IH [OF rest] passCalls_abort)
qed

lemma closed_iff_closeTime:
  "closed (netConn (fst (disconnectIfIdle_loop c calls (map snd run)))) =
     (closed (netConn c) \<or> closeTime run \<noteq> None)"
proof (induction run arbitrary: calls)
  case Nil
  then show ?case by simp
next
  case (Cons tc run)
  obtain t e where tc: "tc = (t, e)" by (cases tc)
  show ?case
    unfolding tc by (cases e) (simp_all add: Cons.IH)
qed

text \<open>Between two passes of the loop the timer is running and \<^verbatim>\<open>C\<close> is empty.\<close>

lemma reset_step:
  assumes "running tm" and "\<not> inC tm"
    and "if stopped then running tm else (running tm \<longrightarrow> deadline tm \<le> t)"
  shows "\<exists>tm'. timerCalls t (atStop stopped tm) (passCalls c (AbortConnectionTimeout stopped)) = Some tm' \<and>
           running tm' \<and> \<not> inC tm' \<and> deadline tm' = t + timeout c"
  using assms by (cases stopped) (simp_all add: passCalls_abort atStop_def fire_def)

lemma close_after_deadline:
  "running tm \<Longrightarrow> \<not> inC tm \<Longrightarrow> admissible c now tm run \<Longrightarrow> closeTime run = Some tc \<Longrightarrow>
   lo \<le> deadline tm \<Longrightarrow> lo \<le> now + timeout c \<Longrightarrow> lo \<le> tc"
proof (induction run arbitrary: now tm)
  case Nil
  then show ?case by simp
next
  case (Cons te run)
  obtain t e where te: "te = (t, e)" by (cases te)
  show ?case
  proof (cases e)
    case TimerC
    then show ?thesis
      using Cons.prems by (simp add: te)
  next
    case CtxDone
    then show ?thesis
      using Cons.prems by (simp add: te)
  next
    case (AbortConnectionTimeout stopped)
    have adm: "now \<le> t"
      and ok: "if stopped then running tm else (running tm \<longrightarrow> deadline tm \<le> t)"
      using Cons.prems(3) by (simp_all add: te AbortConnectionTimeout)
    obtain tm' where step: "timerCalls t (atStop stopped tm)
          (passCalls c (AbortConnectionTimeout stopped)) = Some tm'"
      and inv: "running tm'" "\<not> inC tm'" and dl: "deadline tm' = t + timeout c"
      using reset_step [OF Cons.prems(1) Cons.prems(2) ok] by blast
    have rest: "admissible c t tm' run"
      using Cons.prems(3) step by (simp add: te AbortConnectionTimeout)
    have ct: "closeTime run = Some tc"
      using Cons.prems(4) by (simp add: te AbortConnectionTimeout)
    have "lo \<le> deadline tm'" "lo \<le> t + timeout c"
      using dl adm Cons.prems(6) by simp_all
    then show ?thesis
      using Cons.IH [OF inv rest ct] by simp
  qed
qed

lemma close_after_reset:
  "running tm \<Longrightarrow> \<not> inC tm \<Longrightarrow> \<forall>e \<in> set tpre. isAbort (snd e) \<Longrightarrow>
   admissible c now tm (tpre @ (t, AbortConnectionTimeout stopped) # tpost) \<Longrightarrow>
   closeTime (tpre @ (t, AbortConnectionTimeout stopped) # tpost) = Some tc \<Longrightarrow>
   t + timeout c \<le> tc"
proof (induction tpre arbitrary: now tm)
  case Nil
  have ok: "if stopped then running tm else (running tm \<longrightarrow> deadline tm \<le> t)"
    using Nil.prems(4) by simp
  obtain tm' where step: "timerCalls t (atStop stopped tm)
        (passCalls c (AbortConnectionTimeout stopped)) = Some tm'"
    and inv: "running tm'" "\<not> inC tm'" and dl: "deadline tm' = t + timeout c"
    using reset_step [OF Nil.prems(1) Nil.prems(2) ok] by blast
  have rest: "admissible c t tm' tpost"
    using Nil.prems(4) step by simp
  have ct: "closeTime tpost = Some tc"
    using Nil.prems(5) by simp
  show ?case
    using close_after_deadline [OF inv rest ct, of "t + timeout c"] dl by simp
next
  case (Cons te tpre)
  obtain t1 e where te: "te = (t1, e)" by (cases te)
  obtain s1 where e: "e = AbortConnectionTimeout s1"
    using Cons.prems(3) by (cases e) (auto simp: te)
  have ok: "if s1 then running tm else (running tm \<longrightarrow> deadline tm \<le> t1)"
    using Cons.prems(4) by (simp add: te e)
  obtain tm' where step: "timerCalls t1 (atStop s1 tm)
        (passCalls c (AbortConnectionTimeout s1)) = Some tm'"
    and inv: "running tm'" "\<not> inC tm'"
    using reset_step [OF Cons.prems(1) Cons.prems(2) ok] by blast
  have rest: "admissible c t1 tm' (tpre @ (t, AbortConnectionTimeout stopped) # tpost)"
    using Cons.prems(4) step by (simp add: te e)
  have ct: "closeTime (tpre @ (t, AbortConnectionTimeout stopped) # tpost) = Some tc"
    using Cons.prems(5) by (simp add: te e)
  have pre: "\<forall>e \<in> set tpre. isAbort (snd e)"
    using Cons.prems(3) by simp
  show ?case
    by (rule Cons.IH [OF inv pre rest ct])
qed

lemma resets_admissible:
  "running tm \<Longrightarrow> \<not> inC tm \<Longrightarrow> now \<le> s \<Longrightarrow>
   admissible c now tm (map (\<lambda>k. (s + int k, AbortConnectionTimeout True)) [0..<n])"
proof (induction n arbitrary: now tm s)
  case 0
  then show ?case by simp
next
  case (Suc n)
  have split: "map (\<lambda>k. (s + int k, AbortConnectionTimeout True)) [0..<Suc n] =
      (s, AbortConnectionTimeout True) #
      map (\<lambda>k. ((s + 1) + int k, AbortConnectionTimeout True)) [0..<n]"
    by (simp add: upt_conv_Cons map_Suc_upt [symmetric] comp_def add.assoc del: upt_Suc)
  have ok: "if True then running tm else (running tm \<longrightarrow> deadline tm \<le> s)"
    using Suc.prems by simp
  obtain tm' where step: "timerCalls s (atStop True tm)
        (passCalls c (AbortConnectionTimeout True)) = Some tm'"
    and inv: "running tm'" "\<not> inC tm'"
    using reset_step [OF Suc.prems(1) Suc.prems(2) ok] by blast
  have "admissible c s tm' (map (\<lambda>k. ((s + 1) + int k, AbortConnectionTimeout True)) [0..<n])"
    using Suc.IH [OF inv, of s "s + 1"] by simp
  then show ?case
    unfolding split using Suc.prems step by simp
qed

text \<open>
  C5. In the pass of the loop that receives a reset signal the watchdog calls
  \<^verbatim>\<open>timer.Stop()\<close>, receives from \<^verbatim>\<open>timer.C\<close> exactly when \<^verbatim>\<open>Stop()\<close> returned false, and
  calls \<^verbatim>\<open>timer.Reset(c.timeout)\<close>. After any number of resets the watchdog has not
  returned and the connection is as it was, and a run of any number of resets can be
  taken: nothing bounds the lifetime of a session. The socket is closed exactly when
  the run takes the timer's case. With the clock: a run that receives a reset at time
  \<open>t\<close> and closes the socket afterwards does so at \<open>t + timeout\<close> or later, whether
  or not the timer had already fired when \<^verbatim>\<open>Stop()\<close> was called; and a run started at
  \<open>t0\<close> closes no earlier than \<open>t0 + timeout\<close>.
\<close>

theorem reset_restarts_full_window:
  "passCalls c (AbortConnectionTimeout stopped) =
     Stop # (if stopped then [] else [RecvC]) @ [Reset (timeout c)] \<and>
   ((\<forall>e \<in> set pre. isAbort e) \<longrightarrow>
      disconnectIfIdle c pre =
        (c, NewTimer (timeout c) # concat (map (passCalls c) pre), False)) \<and>
   closed (netConn (fst (disconnectIfIdle c (map snd run)))) =
     (closed (netConn c) \<or> closeTime run \<noteq> None) \<and>
   ((\<forall>e \<in> set tpre. isAbort (snd e)) \<and>
    admissibleRun c t0 (tpre @ (t, AbortConnectionTimeout stopped) # tpost) \<and>
    closeTime (tpre @ (t, AbortConnectionTimeout stopped) # tpost) = Some tc \<longrightarrow>
      t + timeout c \<le> tc) \<and>
   (admissibleRun c t0 run \<and> closeTime run = Some tc \<longrightarrow> t0 + timeout c \<le> tc) \<and>
   admissibleRun c t0 (map (\<lambda>k. (t0 + int k, AbortConnectionTimeout True)) [0..<n])"
proof -
  define tm0 where "tm0 = \<lparr> deadline = t0 + timeout c, running = True, inC = False \<rparr>"
  have start: "timerCalls t0 noTimer (startCalls c) = Some tm0"
    by (simp add: startCalls_eq tm0_def)
  have inv: "running tm0" "\<not> inC tm0" and dl: "deadline tm0 = t0 + timeout c"
    by (simp_all add: tm0_def)
  have run_eq: "admissibleRun c t0 r = admissible c t0 tm0 r" for r
    by (simp add: admissibleRun_def start)
  have p1: "passCalls c (AbortConnectionTimeout stopped) =
     Stop # (if stopped then [] else [RecvC]) @ [Reset (timeout c)]"
    by (rule passCalls_abort)
  have p2: "disconnectIfIdle c pre =
        (c, NewTimer (timeout c) # concat (map (passCalls c) pre), False)"
    if "\<forall>e \<in> set pre. isAbort e"
    using disconnectIfIdle_loop_resets [OF that, of c "[NewTimer (timeout c)]"]
    by (simp add: disconnectIfIdle_def)
  have p3: "closed (netConn (fst (disconnectIfIdle c (map snd run)))) =
     (closed (netConn c) \<or> closeTime run \<noteq> None)"
    unfolding disconnectIfIdle_def by (rule closed_iff_closeTime)
  have p4: "t + timeout c \<le> tc"
    if "\<forall>e \<in> set tpre. isAbort (snd e)"
      and "admissibleRun c t0 (tpre @ (t, AbortConnectionTimeout stopped) # tpost)"
      and "closeTime (tpre @ (t, AbortConnectionTimeout stopped) # tpost) = Some tc"
    using close_after_reset [OF inv that(1) _ that(3)] that(2) unfolding run_eq by blast
  have p5: "t0 + timeout c \<le> tc"
    if "admissibleRun c t0 run" and "closeTime run = Some tc"
    using close_after_deadline [OF inv _ that(2), of c t0 "t0 + timeout c"] that(1) dl
    unfolding run_eq by simp
  have p6: "admissibleRun c t0 (map (\<lambda>k. (t0 + int k, AbortConnectionTimeout True)) [0..<n])"
    unfolding run_eq by (rule resets_admissible [OF inv]) simp
  show ?thesis
    using p1 p2 p3 p4 p5 p6 by blast
qed

text \<open>
  A timeout of 100 ms, the watchdog started at 0. A reset at 80 ms stops the running
  timer; a second one at 200 ms comes after the timer has fired, and drains it; the
  socket is closed at 300 ms. No run closes the socket at 100 ms after the reset at
  80 ms, nor 1 ns after the reset at 200 ms.
\<close>

theorem reset_restarts_full_window_witness:
  "timeout alice = 100000000 \<and>
   admissibleRun alice 0
     [(80000000, AbortConnectionTimeout True), (200000000, AbortConnectionTimeout False),
      (300000000, TimerC)] \<and>
   closeTime
     [(80000000, AbortConnectionTimeout True), (200000000, AbortConnectionTimeout False),
      (300000000, TimerC)] = Some 300000000 \<and>
   200000000 + timeout alice \<le> 300000000 \<and>
   disconnectIfIdle alice [AbortConnectionTimeout True, AbortConnectionTimeout False] =
     (alice, [NewTimer 100000000, Stop, Reset 100000000, Stop, RecvC, Reset 100000000], False) \<and>
   closed (netConn (fst (disconnectIfIdle alice
     [AbortConnectionTimeout True, AbortConnectionTimeout False, TimerC]))) \<and>
   \<not> admissibleRun alice 0 [(80000000, AbortConnectionTimeout True), (100000000, TimerC)] \<and>
   \<not> admissibleRun alice 0
     [(80000000, AbortConnectionTimeout True), (200000000, AbortConnectionTimeout False),
      (200000001, TimerC)]"
proof -
  let ?run = "[(80000000, AbortConnectionTimeout True), (200000000, AbortConnectionTimeout False),
      (300000000, TimerC)] :: timed_case list"
  have tmo: "timeout alice = 100000000"
    by (simp add: alice_def client_def newConn_def)
  have open0: "\<not> closed (netConn alice)"
    by (simp add: alice_def client_def newConn_def)
  have adm: "admissibleRun alice 0
      ([(80000000, AbortConnectionTimeout True)] @ (200000000, AbortConnectionTimeout False) #
       [(300000000, TimerC)])"
    by (simp add: admissibleRun_def startCalls_eq passCalls_abort atStop_def fire_def noTimer_def tmo)
  have ct: "closeTime ([(80000000, AbortConnectionTimeout True)] @
      (200000000, AbortConnectionTimeout False) # [(300000000, TimerC)]) = Some 300000000"
    by simp
  have pre: "\<forall>e \<in> set [(80000000 :: int, AbortConnectionTimeout True)]. isAbort (snd e)"
    by simp
  have aborts: "\<forall>e \<in> set [AbortConnectionTimeout True, AbortConnectionTimeout False]. isAbort e"
    by simp
  have early: "\<not> admissibleRun alice 0
      [(80000000, AbortConnectionTimeout True), (100000000, TimerC)]"
    by (simp add: admissibleRun_def startCalls_eq passCalls_abort atStop_def fire_def noTimer_def tmo)
  have refire: "\<not> admissibleRun alice 0
     [(80000000, AbortConnectionTimeout True), (200000000, AbortConnectionTimeout False),
      (200000001, TimerC)]"
    by (simp add: admissibleRun_def startCalls_eq passCalls_abort atStop_def fire_def noTimer_def tmo)
  note inst = reset_restarts_full_window
    [of alice False "[AbortConnectionTimeout True, AbortConnectionTimeout False]" ?run
      "[(80000000, AbortConnectionTimeout True)]" 0 200000000 "[(300000000, TimerC)]" 300000000 0]
  have bound: "200000000 + timeout alice \<le> 300000000"
    using inst adm ct pre by blast
  have calls: "disconnectIfIdle alice [AbortConnectionTimeout True, AbortConnectionTimeout False] =
     (alice, [NewTimer 100000000, Stop, Reset 100000000, Stop, RecvC, Reset 100000000], False)"
    using inst aborts by (simp add: passCalls_abort tmo)
  have cl: "closed (netConn (fst (disconnectIfIdle alice
     [AbortConnectionTimeout True, AbortConnectionTimeout False, TimerC])))"
    using inst by simp
  show ?thesis
    using tmo adm ct bound calls cl early refire by simp
qed

end
